theory Spec2Isabelle
  imports Complex_Main "HOL-Library.Sublist"
begin

section \<open>Direct-image flow: backend/server.js\<close>

subsection \<open>Numbers and strings of the JavaScript source\<close>

text \<open>
  Tier counts are non-negative integers (the rarity-plan form sends \<open>parseInt(..) || 0\<close>,
  the data model asks for \<open>nftCount > 0\<close> and \<open>editionsPerImage \<ge> 1\<close>), so they are
  \<open>nat\<close> here. The quotient \<open>nftCount / editionsPerImage\<close> is a JavaScript number:
  dividing by zero gives \<open>Infinity\<close> (or \<open>NaN\<close> for \<open>0 / 0\<close>), and \<open>Math.ceil\<close>
  keeps both.
\<close>

datatype jsnum = Num nat | Infinity | NaN

text \<open>
  \<open>Math.ceil(a / b)\<close> on non-negative integers. For integers below \<open>2^53\<close> the
  floating-point quotient is on the same side of every integer as the exact one, so the
  result is the exact ceiling (\<open>ceil_div_real\<close>).
\<close>

definition ceil_div :: "nat \<Rightarrow> nat \<Rightarrow> jsnum" where
  "ceil_div a b =
     (if b = 0 then (if a = 0 then NaN else Infinity)
      else Num ((a + b - 1) div b))"

text \<open>\<open>a < x\<close> for an integer \<open>a\<close> and a JavaScript number \<open>x\<close>: false against \<open>NaN\<close>.\<close>

fun js_less :: "nat \<Rightarrow> jsnum \<Rightarrow> bool" where
  "js_less a (Num k) = (a < k)"
| "js_less a Infinity = True"
| "js_less a NaN = False"

text \<open>\<open>String(i)\<close> for a non-negative integer: its decimal digits.\<close>

definition digit_char :: "nat \<Rightarrow> char" where
  "digit_char d = char_of (48 + d)"

fun string_of_nat :: "nat \<Rightarrow> string" where
  "string_of_nat n =
     (if n < 10 then [digit_char n]
      else string_of_nat (n div 10) @ [digit_char (n mod 10)])"

declare string_of_nat.simps [simp del]

text \<open>Template-literal rendering of a JavaScript number.\<close>

fun string_of_jsnum :: "jsnum \<Rightarrow> string" where
  "string_of_jsnum (Num k) = string_of_nat k"
| "string_of_jsnum Infinity = ''Infinity''"
| "string_of_jsnum NaN = ''NaN''"

text \<open>\<open>s.padStart(w, '0')\<close>: pads on the left up to width \<open>w\<close>, never truncates.\<close>

definition padStart :: "nat \<Rightarrow> char \<Rightarrow> string \<Rightarrow> string" where
  "padStart w c s = replicate (w - length s) c @ s"

subsection \<open>Data of the rarity plan\<close>

record upload =
  fieldname :: string
  buffer :: string

text \<open>A tier as \<open>createJobQueue\<close> destructures it; its \<open>type\<close> is \<open>tierType\<close> here.\<close>

record tier =
  tierType :: string
  nftCount :: nat
  editionsPerImage :: nat
  artIdPrefix :: string
  images :: "upload list"

text \<open>
  One element pushed on \<open>jobQueue\<close>. \<open>images[imageIndex]\<close> is \<open>undefined\<close> past the end of
  the array, which is \<open>None\<close> here.
\<close>

record job_seed =
  sourceImage :: "upload option"
  rarityTier :: string
  artId :: string
  editionNumber :: nat
  editionTotal :: nat
  globalIndex :: nat

datatype gen_error = TierCapacityError string jsnum nat

text \<open>The message of the thrown \<open>Error\<close>.\<close>

fun message :: "gen_error \<Rightarrow> string" where
  "message (TierCapacityError ty needed provided) =
     ''Tier '' @ [CHR 0x22] @ ty @ [CHR 0x22] @ '' needs '' @ string_of_jsnum needed
       @ '' images but only '' @ string_of_nat provided @ '' provided''"

subsection \<open>createJobQueue\<close>

definition imagesNeeded :: "tier \<Rightarrow> jsnum" where
  "imagesNeeded t = ceil_div (nftCount t) (editionsPerImage t)"

text \<open>
  \<open>Math.min(editionsPerImage, nftCount - imageIndex * editionsPerImage)\<close>. The difference
  is negative in JavaScript exactly where it is cut to \<open>0\<close> here; in both cases the edition
  loop below does not run, so the value is never stored.
\<close>

definition editionsForThisImage :: "tier \<Rightarrow> nat \<Rightarrow> nat" where
  "editionsForThisImage t imageIndex =
     min (editionsPerImage t) (nftCount t - imageIndex * editionsPerImage t)"

definition artIdOf :: "tier \<Rightarrow> nat \<Rightarrow> string" where
  "artIdOf t imageIndex = artIdPrefix t @ ''-'' @ string_of_nat (imageIndex + 1)"

definition imageAt :: "tier \<Rightarrow> nat \<Rightarrow> upload option" where
  "imageAt t imageIndex =
     (if imageIndex < length (images t) then Some (images t ! imageIndex) else None)"

definition mkJob :: "tier \<Rightarrow> nat \<Rightarrow> nat \<Rightarrow> nat \<Rightarrow> nat \<Rightarrow> job_seed" where
  "mkJob t imageIndex edition nEditions currentIndex =
     \<lparr> sourceImage = imageAt t imageIndex,
       rarityTier = tierType t,
       artId = artIdOf t imageIndex,
       editionNumber = edition,
       editionTotal = nEditions,
       globalIndex = currentIndex \<rparr>"

text \<open>
  The innermost loop, \<open>for (edition = 1; edition <= editionsForThisImage; edition++)\<close>.
  The state is the queue and \<open>currentIndex\<close>.
\<close>

function editionLoop ::
  "tier \<Rightarrow> nat \<Rightarrow> nat \<Rightarrow> nat \<Rightarrow> job_seed list \<times> nat \<Rightarrow> job_seed list \<times> nat" where
  "editionLoop t imageIndex nEditions edition (jobQueue, currentIndex) =
     (if edition \<le> nEditions
      then editionLoop t imageIndex nEditions (Suc edition)
             (jobQueue @ [mkJob t imageIndex edition nEditions currentIndex], Suc currentIndex)
      else (jobQueue, currentIndex))"
  by pat_completeness auto
termination
  by (relation "measure (\<lambda>(t, i, nEditions, edition, st). Suc nEditions - edition)") auto

declare editionLoop.simps [simp del]

text \<open>The middle loop, \<open>for (imageIndex = 0; imageIndex < imagesNeeded; imageIndex++)\<close>.\<close>

function imageLoop ::
  "tier \<Rightarrow> nat \<Rightarrow> nat \<Rightarrow> job_seed list \<times> nat \<Rightarrow> job_seed list \<times> nat" where
  "imageLoop t needed imageIndex st =
     (if imageIndex < needed
      then imageLoop t needed (Suc imageIndex)
             (editionLoop t imageIndex (editionsForThisImage t imageIndex) 1 st)
      else st)"
  by pat_completeness auto
termination
  by (relation "measure (\<lambda>(t, needed, i, st). needed - i)") auto

declare imageLoop.simps [simp del]

text \<open>
  The body of \<open>for (const tier of rarityTiers)\<close>. With \<open>imagesNeeded = Infinity\<close> the guard
  always throws; with \<open>NaN\<close> neither the guard nor the loop condition holds.
\<close>

definition expandTier :: "tier \<Rightarrow> job_seed list \<times> nat \<Rightarrow> gen_error + job_seed list \<times> nat" where
  "expandTier t st =
     (if js_less (length (images t)) (imagesNeeded t)
      then Inl (TierCapacityError (tierType t) (imagesNeeded t) (length (images t)))
      else (case imagesNeeded t of
              Num needed \<Rightarrow> Inr (imageLoop t needed 0 st)
            | _ \<Rightarrow> Inr st))"

fun tierLoop :: "tier list \<Rightarrow> job_seed list \<times> nat \<Rightarrow> gen_error + job_seed list \<times> nat" where
  "tierLoop [] st = Inr st"
| "tierLoop (t # ts) st =
     (case expandTier t st of Inl e \<Rightarrow> Inl e | Inr st' \<Rightarrow> tierLoop ts st')"

definition createJobQueue :: "tier list \<Rightarrow> nat \<Rightarrow> gen_error + job_seed list" where
  "createJobQueue rarityTiers totalSupply =
     (case tierLoop rarityTiers ([], 0) of
        Inl e \<Rightarrow> Inl e
      | Inr (jobQueue, currentIndex) \<Rightarrow> Inr jobQueue)"

text \<open>
  What the edition loop appends for one image slot, starting at global index \<open>c\<close>
  (shown equal to the loop in \<open>editionLoop_imageJobs\<close>).
\<close>

definition imageJobs :: "tier \<Rightarrow> nat \<Rightarrow> nat \<Rightarrow> job_seed list" where
  "imageJobs t imageIndex c =
     map (\<lambda>d. mkJob t imageIndex (Suc d) (editionsForThisImage t imageIndex) (c + d))
       [0..<editionsForThisImage t imageIndex]"

subsection \<open>shuffleArray\<close>

text \<open>
  Fisher-Yates on a copy. \<open>Math.floor(Math.random() * (i + 1))\<close> is an integer in
  \<open>[0, i]\<close>; the random source is the parameter \<open>rnd\<close>, read as \<open>rnd i mod (i + 1)\<close>.
\<close>

definition swap :: "nat \<Rightarrow> nat \<Rightarrow> 'a list \<Rightarrow> 'a list" where
  "swap i j xs = xs[i := xs ! j, j := xs ! i]"

fun shuffleLoop :: "(nat \<Rightarrow> nat) \<Rightarrow> nat \<Rightarrow> 'a list \<Rightarrow> 'a list" where
  "shuffleLoop rnd 0 shuffled = shuffled"
| "shuffleLoop rnd (Suc i) shuffled =
     shuffleLoop rnd i (swap (Suc i) (rnd (Suc i) mod (Suc i + 1)) shuffled)"

definition shuffleArray :: "(nat \<Rightarrow> nat) \<Rightarrow> 'a list \<Rightarrow> 'a list" where
  "shuffleArray rnd array = shuffleLoop rnd (length array - 1) array"

subsection \<open>generateMetadata and the request handler\<close>

record collectionData =
  projectName :: string
  symbol :: string
  description :: string

text \<open>
  The fields of the metadata document that depend on the job and on the padded index.
  Royalty, creators, colour palette and hash are computed from floating-point and
  external inputs and are left out.
\<close>

record metadata =
  md_name :: string
  md_symbol :: string
  md_description :: string
  md_image :: string
  md_file_uri :: string
  md_rarity_tier :: string
  md_edition_total :: nat
  md_edition_number :: nat
  md_art_id :: string

definition generateMetadata :: "job_seed \<Rightarrow> collectionData \<Rightarrow> string \<Rightarrow> metadata" where
  "generateMetadata job cd paddedIndex =
     \<lparr> md_name = projectName cd @ '' #'' @ paddedIndex,
       md_symbol = symbol cd,
       md_description = description cd,
       md_image = ''ipfs://<CID>/'' @ paddedIndex @ ''.png'',
       md_file_uri = paddedIndex @ ''.png'',
       md_rarity_tier = rarityTier job,
       md_edition_total = editionTotal job,
       md_edition_number = editionNumber job,
       md_art_id = artId job \<rparr>"

text \<open>\<open>String(i).padStart(5, '0')\<close>.\<close>

definition paddedIndex :: "nat \<Rightarrow> string" where
  "paddedIndex i = padStart 5 (CHR ''0'') (string_of_nat i)"

datatype zip_content = Folder | ImageData string | JsonData metadata

type_synonym zip = "(string \<times> zip_content) list"

text \<open>
  \<open>folder.file(name, data)\<close>: the archive is keyed by path, so a second write to the same
  path replaces the first. \<open>zip.folder(name)\<close> adds the directory entry.
\<close>

fun zipFile :: "string \<Rightarrow> zip_content \<Rightarrow> zip \<Rightarrow> zip" where
  "zipFile name data [] = [(name, data)]"
| "zipFile name data (e # es) =
     (if fst e = name then (name, data) # es else e # zipFile name data es)"

datatype response =
    Status400 string
  | Status500 string string
  | SendZip string zip

text \<open>
  Each tier gets the uploaded files whose field name starts with \<open>tier_<index>_\<close>; the
  tiers come from \<open>JSON.parse\<close> and are distinct objects, so \<open>indexOf\<close> is the position.
\<close>

definition processedTiers :: "tier list \<Rightarrow> upload list \<Rightarrow> tier list" where
  "processedTiers rarityTiers uploadedFiles =
     map (\<lambda>(idx, t).
            t\<lparr>images := filter (\<lambda>file. prefix (''tier_'' @ string_of_nat idx @ ''_'')
                                          (fieldname file)) uploadedFiles\<rparr>)
       (enumerate 0 rarityTiers)"

text \<open>
  \<open>sharp(imageBuffer).png().toBuffer()\<close> is the parameter \<open>toPng\<close>; when it fails the
  original buffer is kept.
\<close>

definition processImage :: "(string \<Rightarrow> string option) \<Rightarrow> string \<Rightarrow> string" where
  "processImage toPng imageBuffer =
     (case toPng imageBuffer of Some png \<Rightarrow> png | None \<Rightarrow> imageBuffer)"

text \<open>
  The loop \<open>for (i = 0; i < totalSupply; i++)\<close> over the final queue. Reading \<open>.buffer\<close>
  of a missing job or of a missing source image is a \<open>TypeError\<close>, which the handler's
  \<open>catch\<close> turns into status 500; it is \<open>None\<close> here.
\<close>

function processLoop ::
  "(string \<Rightarrow> string option) \<Rightarrow> collectionData \<Rightarrow> job_seed list \<Rightarrow> nat \<Rightarrow> nat \<Rightarrow> zip
     \<Rightarrow> zip option" where
  "processLoop toPng cd finalQueue totalSupply i z =
     (if i < totalSupply then
        (if i < length finalQueue then
           (case sourceImage (finalQueue ! i) of
              None \<Rightarrow> None
            | Some img \<Rightarrow>
                processLoop toPng cd finalQueue totalSupply (Suc i)
                  (zipFile (''json/'' @ paddedIndex i @ ''.json'')
                     (JsonData (generateMetadata (finalQueue ! i) cd (paddedIndex i)))
                     (zipFile (''images/'' @ paddedIndex i @ ''.png'')
                        (ImageData (processImage toPng (buffer img))) z)))
         else None)
      else Some z)"
  by pat_completeness auto
termination
  by (relation "measure (\<lambda>(toPng, cd, q, n, i, z). n - i)") auto

declare processLoop.simps [simp del]

definition sanitize :: "string \<Rightarrow> string" where
  "sanitize s =
     map (\<lambda>c. if c \<in> set ''abcdefghijklmnopqrstuvwxyzABCDEFGHIJKLMNOPQRSTUVWXYZ0123456789''
               then c else CHR ''_'') s"

text \<open>The handler of \<open>POST /api/generate\<close>, after the request body is parsed.\<close>

definition generate ::
  "(nat \<Rightarrow> nat) \<Rightarrow> (string \<Rightarrow> string option) \<Rightarrow> collectionData \<Rightarrow> tier list \<Rightarrow> nat
     \<Rightarrow> bool \<Rightarrow> upload list \<Rightarrow> response" where
  "generate rnd toPng cd rarityTiers totalSupply randomizeOrder uploadedFiles =
     (if uploadedFiles = [] then Status400 ''No images uploaded''
      else case createJobQueue (processedTiers rarityTiers uploadedFiles) totalSupply of
        Inl e \<Rightarrow> Status500 ''Generation failed'' (message e)
      | Inr jobQueue \<Rightarrow>
          if length jobQueue \<noteq> totalSupply
          then Status400 (''Job queue length ('' @ string_of_nat (length jobQueue)
                 @ '') doesn't match total supply ('' @ string_of_nat totalSupply @ '')'')
          else (case processLoop toPng cd
                       (if randomizeOrder then shuffleArray rnd jobQueue else jobQueue)
                       totalSupply 0 [(''images/'', Folder), (''json/'', Folder)] of
                  None \<Rightarrow> Status500 ''Generation failed'' ''TypeError''
                | Some z \<Rightarrow> SendZip (sanitize (projectName cd) @ ''_collection.zip'') z))"

text \<open>
  The scenario plan: two unique items from images A and B, four common items from images
  C and D with two editions each.
\<close>

definition examplePlan :: "tier list" where
  "examplePlan =
     [\<lparr> tierType = ''1/1'', nftCount = 2, editionsPerImage = 1, artIdPrefix = ''u'',
         images = [\<lparr>fieldname = ''tier_0_A'', buffer = ''A''\<rparr>,
                   \<lparr>fieldname = ''tier_0_B'', buffer = ''B''\<rparr>] \<rparr>,
      \<lparr> tierType = ''common'', nftCount = 4, editionsPerImage = 2, artIdPrefix = ''c'',
         images = [\<lparr>fieldname = ''tier_1_C'', buffer = ''C''\<rparr>,
                   \<lparr>fieldname = ''tier_1_D'', buffer = ''D''\<rparr>] \<rparr>]"

text \<open>
  A tier of seven items with three editions per image, and a tier that needs five images
  but has four.
\<close>

definition exampleTier :: tier where
  "exampleTier =
     \<lparr> tierType = ''limited'', nftCount = 7, editionsPerImage = 3, artIdPrefix = ''ltd'',
       images = [\<lparr>fieldname = ''tier_0_a'', buffer = ''a''\<rparr>,
                 \<lparr>fieldname = ''tier_0_b'', buffer = ''b''\<rparr>,
                 \<lparr>fieldname = ''tier_0_c'', buffer = ''c''\<rparr>] \<rparr>"

definition shortTier :: tier where
  "shortTier =
     \<lparr> tierType = ''common'', nftCount = 10, editionsPerImage = 2, artIdPrefix = ''c'',
       images = [\<lparr>fieldname = ''tier_1_a'', buffer = ''a''\<rparr>,
                 \<lparr>fieldname = ''tier_1_b'', buffer = ''b''\<rparr>,
                 \<lparr>fieldname = ''tier_1_c'', buffer = ''c''\<rparr>,
                 \<lparr>fieldname = ''tier_1_d'', buffer = ''d''\<rparr>] \<rparr>"

section \<open>AI studio: models/Job.js, services/jobService.js, services/metadataService.js\<close>

subsection \<open>Store, file system and asynchronous calls\<close>

datatype job_status = Pending | Generating | Generated | Approved | Error

text \<open>
  A row of the \<open>jobs\<close> table (the columns the services read or write; \<open>id\<close> is \<open>job_id\<close>).
  \<open>NULL\<close> is \<open>None\<close>.
\<close>

record job =
  job_id :: string
  collection_id :: string
  edition_number :: nat
  edition_in_drop :: nat
  status :: job_status
  image_path :: "string option"
  metadata_path :: "string option"
  ai_prompt :: string
  error_message :: "string option"
  retry_count :: nat

record collection =
  col_id :: string
  col_name :: string
  col_symbol :: string
  col_description :: string
  collection_number :: string
  total_supply :: nat
  drop_supply :: nat
  drop_number :: nat

text \<open>An entry handed to the archiver, and what a path of the file system holds.\<close>

datatype entry_source =
    CollectionMetadata collection
  | Readme collection nat
  | FromFile string

record archive_entry =
  entry_name :: string
  entry_source :: entry_source

datatype content = Bytes string | ZipArchive "archive_entry list"

text \<open>
  The state the services share: the orchestrator's flag, the two tables, the file system,
  and how many database statements and image-API requests have been issued so far.
\<close>

record world =
  isProcessing :: bool
  jobs :: "job list"
  collections :: "collection list"
  files :: "string \<rightharpoonup> content"
  dbCalls :: nat
  apiCalls :: nat

text \<open>
  What the services cannot decide themselves: whether the \<open>n\<close>-th database statement is
  rejected (and with which message), what the \<open>n\<close>-th request to the image API returns for
  a prompt (an error message or the image data), the directories and the batch sizes.
\<close>

record env =
  dbFails :: "nat \<Rightarrow> string option"
  stability :: "nat \<Rightarrow> string \<Rightarrow> string + string"
  uploadsDir :: string
  outputDir :: string
  initialBatchSize :: nat
  continueBatchSize :: nat

datatype exn = Thrown string

fun exn_message :: "exn \<Rightarrow> string" where
  "exn_message (Thrown m) = m"

text \<open>
  An \<open>async\<close> function: it either throws (rejects) or returns, and leaves a new state.
  \<open>await m f\<close> is \<open>const x = await m; f x\<close>; \<open>tryCatch m h\<close> is \<open>try { m } catch (e) { h e }\<close>.
\<close>

type_synonym 'a async = "world \<Rightarrow> (exn + 'a) \<times> world"

definition return :: "'a \<Rightarrow> 'a async" where
  "return a w = (Inr a, w)"

definition throw :: "exn \<Rightarrow> 'a async" where
  "throw e w = (Inl e, w)"

definition await :: "'a async \<Rightarrow> ('a \<Rightarrow> 'b async) \<Rightarrow> 'b async" where
  "await m f w = (case m w of (Inl e, w') \<Rightarrow> (Inl e, w') | (Inr a, w') \<Rightarrow> f a w')"

definition tryCatch :: "'a async \<Rightarrow> (exn \<Rightarrow> 'a async) \<Rightarrow> 'a async" where
  "tryCatch m h w = (case m w of (Inl e, w') \<Rightarrow> h e w' | (Inr a, w') \<Rightarrow> (Inr a, w'))"

text \<open>One database statement: counted, rejected when the environment says so.\<close>

definition dbStmt :: "env \<Rightarrow> (world \<Rightarrow> 'a \<times> world) \<Rightarrow> 'a async" where
  "dbStmt env q w =
     (let w1 = w\<lparr>dbCalls := Suc (dbCalls w)\<rparr> in
      case dbFails env (dbCalls w) of
        Some m \<Rightarrow> (Inl (Thrown m), w1)
      | None \<Rightarrow> (case q w1 of (r, w2) \<Rightarrow> (Inr r, w2)))"

subsection \<open>models/Job.js and models/Collection.js\<close>

definition Job_findById :: "env \<Rightarrow> string \<Rightarrow> job option async" where
  "Job_findById env i = dbStmt env (\<lambda>w. (find (\<lambda>j. job_id j = i) (jobs w), w))"

text \<open>
  \<open>SELECT ... WHERE collection_id = ? [AND status = ?] ORDER BY edition_number ASC
  [LIMIT ?]\<close>. The status and the limit are added only when truthy: no status is \<open>None\<close>,
  and a limit of \<open>0\<close> (or \<open>null\<close>) means no limit. Rows with equal \<open>edition_number\<close> keep
  their table order.
\<close>

definition selectJobs :: "string \<Rightarrow> job_status option \<Rightarrow> nat \<Rightarrow> job list \<Rightarrow> job list" where
  "selectJobs collectionId st limit table =
     (let rows = sort_key edition_number
                   (filter (\<lambda>j. collection_id j = collectionId
                                \<and> (case st of None \<Rightarrow> True | Some s \<Rightarrow> status j = s))
                      table)
      in if limit = 0 then rows else take limit rows)"

definition Job_findByCollectionId ::
  "env \<Rightarrow> string \<Rightarrow> job_status option \<Rightarrow> nat \<Rightarrow> job list async" where
  "Job_findByCollectionId env collectionId st limit =
     dbStmt env (\<lambda>w. (selectJobs collectionId st limit (jobs w), w))"

text \<open>
  The \<open>additionalData\<close> object of \<open>updateStatus\<close>: for each column, \<open>None\<close> when the key is
  absent, \<open>Some v\<close> when the column is set to \<open>v\<close> (\<open>Some None\<close> sets it to \<open>NULL\<close>).
\<close>

record additionalData =
  set_image_path :: "string option option"
  set_metadata_path :: "string option option"
  set_error_message :: "string option option"

definition noData :: additionalData where
  "noData = \<lparr> set_image_path = None, set_metadata_path = None, set_error_message = None \<rparr>"

definition applyUpdate :: "job_status \<Rightarrow> additionalData \<Rightarrow> job \<Rightarrow> job" where
  "applyUpdate s d j =
     j\<lparr> status := s,
        image_path := (case set_image_path d of None \<Rightarrow> image_path j | Some v \<Rightarrow> v),
        metadata_path := (case set_metadata_path d of None \<Rightarrow> metadata_path j | Some v \<Rightarrow> v),
        error_message := (case set_error_message d of None \<Rightarrow> error_message j | Some v \<Rightarrow> v) \<rparr>"

text \<open>\<open>UPDATE jobs SET ... WHERE id = ?\<close>; resolves to \<open>this.changes > 0\<close>.\<close>

definition updateWhere :: "string \<Rightarrow> (job \<Rightarrow> job) \<Rightarrow> world \<Rightarrow> bool \<times> world" where
  "updateWhere i f w =
     (\<exists>j\<in>set (jobs w). job_id j = i,
      w\<lparr>jobs := map (\<lambda>j. if job_id j = i then f j else j) (jobs w)\<rparr>)"

definition Job_updateStatus ::
  "env \<Rightarrow> string \<Rightarrow> job_status \<Rightarrow> additionalData \<Rightarrow> bool async" where
  "Job_updateStatus env i s d = dbStmt env (updateWhere i (applyUpdate s d))"

definition Job_incrementRetryCount :: "env \<Rightarrow> string \<Rightarrow> bool async" where
  "Job_incrementRetryCount env i =
     dbStmt env (updateWhere i (\<lambda>j. j\<lparr>retry_count := retry_count j + 1\<rparr>))"

definition Collection_findById :: "env \<Rightarrow> string \<Rightarrow> collection option async" where
  "Collection_findById env i = dbStmt env (\<lambda>w. (find (\<lambda>c. col_id c = i) (collections w), w))"

subsection \<open>services/aiService.js: generateImage\<close>

text \<open>
  \<open>path.join(dir, name)\<close> for a directory and a plain file name (no normalisation of
  the directory is modelled).
\<close>

definition path_join :: "string \<Rightarrow> string \<Rightarrow> string" where
  "path_join dir name = dir @ ''/'' @ name"

text \<open>
  One request to the image API. On success the image is written to
  \<open>uploadsDir/<jobId>.png\<close> and that path is returned; any failure is rethrown as
  \<open>Failed to generate image: ...\<close>.
\<close>

definition generateImage :: "env \<Rightarrow> string \<Rightarrow> string \<Rightarrow> string async" where
  "generateImage env prompt jobId w =
     (let w1 = w\<lparr>apiCalls := Suc (apiCalls w)\<rparr> in
      case stability env (apiCalls w) prompt of
        Inl m \<Rightarrow> (Inl (Thrown (''Failed to generate image: '' @ m)), w1)
      | Inr imageData \<Rightarrow>
          (let imagePath = path_join (uploadsDir env) (jobId @ ''.png'')
           in (Inr imagePath, w1\<lparr>files := (files w1)(imagePath \<mapsto> Bytes imageData)\<rparr>)))"

subsection \<open>services/jobService.js\<close>

text \<open>\<open>processJob\<close>; its own \<open>catch\<close> only logs and rethrows.\<close>

definition processJob :: "env \<Rightarrow> job \<Rightarrow> unit async" where
  "processJob env job =
     await (Job_updateStatus env (job_id job) Generating noData) (\<lambda>_.
     await (generateImage env (ai_prompt job) (job_id job)) (\<lambda>imagePath.
     await (Job_updateStatus env (job_id job) Generated
              (noData\<lparr>set_image_path := Some (Some imagePath)\<rparr>)) (\<lambda>_.
     return ())))"

text \<open>
  The loop \<open>for (const job of pendingJobs)\<close> of both batch functions, with the list of
  processed jobs collected so far.
\<close>

fun batchLoop :: "env \<Rightarrow> job list \<Rightarrow> job list \<Rightarrow> job list async" where
  "batchLoop env [] processedJobs = return processedJobs"
| "batchLoop env (job # rest) processedJobs =
     await
       (tryCatch
          (await (processJob env job) (\<lambda>_. return (processedJobs @ [job])))
          (\<lambda>error.
             await (Job_updateStatus env (job_id job) Error
                      (noData\<lparr>set_error_message := Some (Some (exn_message error))\<rparr>)) (\<lambda>_.
             await (Job_incrementRetryCount env (job_id job)) (\<lambda>_.
             return processedJobs))))
       (batchLoop env rest)"

text \<open>
  The lock test at the head of both batch functions. It runs synchronously, before the
  first \<open>await\<close>.
\<close>

definition acquire :: "unit async" where
  "acquire w =
     (if isProcessing w then (Inl (Thrown ''Job processing already in progress''), w)
      else (Inr (), w\<lparr>isProcessing := True\<rparr>))"

text \<open>The outer \<open>catch\<close> of both batch functions: \<open>this.isProcessing = false; throw error\<close>.\<close>

definition release_and_rethrow :: "exn \<Rightarrow> 'a async" where
  "release_and_rethrow error w = (Inl error, w\<lparr>isProcessing := False\<rparr>)"

definition finish :: "job list \<Rightarrow> job list async" where
  "finish processedJobs w = (Inr processedJobs, w\<lparr>isProcessing := False\<rparr>)"

text \<open>What \<open>processInitialBatch\<close> does inside its \<open>try\<close> from the first \<open>await\<close> on.\<close>

definition initialRest :: "env \<Rightarrow> string \<Rightarrow> job list async" where
  "initialRest env collectionId =
     await (Job_findByCollectionId env collectionId (Some Pending) (initialBatchSize env))
       (\<lambda>pendingJobs.
          if pendingJobs = [] then throw (Thrown ''No pending jobs found'')
          else await (batchLoop env pendingJobs []) finish)"

definition processInitialBatch :: "env \<Rightarrow> string \<Rightarrow> job list async" where
  "processInitialBatch env collectionId =
     tryCatch (await acquire (\<lambda>_. initialRest env collectionId)) release_and_rethrow"

definition continueRest :: "env \<Rightarrow> string \<Rightarrow> job list async" where
  "continueRest env collectionId =
     await (Job_findByCollectionId env collectionId (Some Pending) (continueBatchSize env))
       (\<lambda>pendingJobs.
          if pendingJobs = [] then finish []
          else await (batchLoop env pendingJobs []) finish)"

definition continueBatchProcessing :: "env \<Rightarrow> string \<Rightarrow> job list async" where
  "continueBatchProcessing env collectionId =
     tryCatch (await acquire (\<lambda>_. continueRest env collectionId)) release_and_rethrow"

text \<open>
  \<open>regenerateJob\<close>, in two parts: the reset (look the job up, delete its image file when
  the path is set and the file exists, put the row back to pending with the three
  columns cleared), then \<open>processJob\<close> on the job object read at the start.
\<close>

definition truthy_path :: "string option \<Rightarrow> world \<Rightarrow> string option" where
  "truthy_path p w =
     (case p of
        None \<Rightarrow> None
      | Some path \<Rightarrow> if path \<noteq> [] \<and> path \<in> dom (files w) then Some path else None)"

definition unlinkIfExists :: "string option \<Rightarrow> unit async" where
  "unlinkIfExists p w =
     (case truthy_path p w of
        None \<Rightarrow> (Inr (), w)
      | Some path \<Rightarrow> (Inr (), w\<lparr>files := (files w)(path := None)\<rparr>))"

definition regenerateReset :: "env \<Rightarrow> string \<Rightarrow> job async" where
  "regenerateReset env jobId =
     await (Job_findById env jobId) (\<lambda>found.
       case found of
         None \<Rightarrow> throw (Thrown ''Job not found'')
       | Some job \<Rightarrow>
           await (unlinkIfExists (image_path job)) (\<lambda>_.
           await (Job_updateStatus env jobId Pending
                    \<lparr> set_image_path = Some None, set_metadata_path = Some None,
                      set_error_message = Some None \<rparr>) (\<lambda>_.
           return job)))"

definition regenerateJob :: "env \<Rightarrow> string \<Rightarrow> bool async" where
  "regenerateJob env jobId =
     await (regenerateReset env jobId) (\<lambda>job.
     await (processJob env job) (\<lambda>_.
     return True))"

text \<open>
  The handler of \<open>POST /api/jobs/:id/regenerate\<close> (routes/jobs.js): the HTTP status it
  answers with.
\<close>

definition regenerateRoute :: "env \<Rightarrow> string \<Rightarrow> world \<Rightarrow> nat \<times> world" where
  "regenerateRoute env i w =
     (case Job_findById env i w of
        (Inl e, w1) \<Rightarrow> (500, w1)
      | (Inr None, w1) \<Rightarrow> (404, w1)
      | (Inr (Some job), w1) \<Rightarrow>
          if status job \<noteq> Generated \<and> status job \<noteq> Error then (400, w1)
          else (case regenerateJob env i w1 of
                  (Inl e, w2) \<Rightarrow> (500, w2)
                | (Inr ok, w2) \<Rightarrow> (200, w2)))"

text \<open>
  The orchestrator as seen by concurrent requests. A call runs up to its first \<open>await\<close>
  at once (\<open>start\<close>: the lock test, inside the \<open>try\<close>); if it was not rejected there it is
  suspended and runs on later (\<open>resume\<close>), while other calls may start in between.
\<close>

datatype batch_kind = Initial | Continue

definition start :: "unit async" where
  "start = tryCatch acquire release_and_rethrow"

definition resume :: "env \<Rightarrow> batch_kind \<Rightarrow> string \<Rightarrow> job list async" where
  "resume env kind collectionId =
     tryCatch
       (case kind of
          Initial \<Rightarrow> initialRest env collectionId
        | Continue \<Rightarrow> continueRest env collectionId)
       release_and_rethrow"

datatype event = Invoke batch_kind string | Resume nat

record orchestrator =
  shared :: world
  inFlight :: "(batch_kind \<times> string) list"
  outcomes :: "(exn + job list) list"

text \<open>
  \<open>Invoke\<close> starts a batch call: it is rejected at once or joins the batches in flight.
  \<open>Resume k\<close> lets the \<open>k\<close>-th batch in flight run to its end.
\<close>

fun step :: "env \<Rightarrow> orchestrator \<Rightarrow> event \<Rightarrow> orchestrator" where
  "step env s (Invoke kind collectionId) =
     (case start (shared s) of
        (Inl e, w) \<Rightarrow> s\<lparr>shared := w, outcomes := outcomes s @ [Inl e]\<rparr>
      | (Inr u, w) \<Rightarrow> s\<lparr>shared := w, inFlight := inFlight s @ [(kind, collectionId)]\<rparr>)"
| "step env s (Resume k) =
     (if k < length (inFlight s) then
        (case inFlight s ! k of (kind, collectionId) \<Rightarrow>
           (case resume env kind collectionId (shared s) of
              (r, w) \<Rightarrow> s\<lparr>shared := w,
                          inFlight := take k (inFlight s) @ drop (Suc k) (inFlight s),
                          outcomes := outcomes s @ [r]\<rparr>))
      else s)"

definition run :: "env \<Rightarrow> orchestrator \<Rightarrow> event list \<Rightarrow> orchestrator" where
  "run env s evs = foldl (step env) s evs"

subsection \<open>services/metadataService.js: createCollectionPackage\<close>

text \<open>The entries \<open>approvedJobs.forEach\<close> adds for one job.\<close>

definition jobEntries :: "world \<Rightarrow> job \<Rightarrow> archive_entry list" where
  "jobEntries w job =
     (case truthy_path (image_path job) w of
        None \<Rightarrow> []
      | Some p \<Rightarrow> [\<lparr>entry_name = string_of_nat (edition_in_drop job) @ ''.png'',
                     entry_source = FromFile p\<rparr>])
     @ (case truthy_path (metadata_path job) w of
          None \<Rightarrow> []
        | Some p \<Rightarrow> [\<lparr>entry_name = string_of_nat (edition_in_drop job) @ ''.json'',
                       entry_source = FromFile p\<rparr>])"

definition packageEntries :: "world \<Rightarrow> collection \<Rightarrow> job list \<Rightarrow> archive_entry list" where
  "packageEntries w c approvedJobs =
     [\<lparr>entry_name = ''collection.json'', entry_source = CollectionMetadata c\<rparr>]
     @ concat (map (jobEntries w) approvedJobs)
     @ [\<lparr>entry_name = ''README.md'', entry_source = Readme c (length approvedJobs)\<rparr>]"

definition createCollectionPackage :: "env \<Rightarrow> string \<Rightarrow> string async" where
  "createCollectionPackage env collectionId =
     await (Collection_findById env collectionId) (\<lambda>found.
       case found of
         None \<Rightarrow> throw (Thrown ''Collection not found'')
       | Some c \<Rightarrow>
           await (Job_findByCollectionId env collectionId (Some Approved) 0) (\<lambda>approvedJobs.
             if approvedJobs = [] then throw (Thrown ''No approved jobs found for collection'')
             else (\<lambda>w.
               let zipPath = path_join (outputDir env)
                               (sanitize (col_name c) @ ''_'' @ collection_number c @ ''.zip'')
               in (Inr zipPath,
                   w\<lparr>files := (files w)(zipPath \<mapsto>
                        ZipArchive (packageEntries w c approvedJobs))\<rparr>))))"

text \<open>The name under which \<open>generateNFTMetadata\<close> lists an item: the raw edition number.\<close>

definition nftName :: "collection \<Rightarrow> job \<Rightarrow> string" where
  "nftName c job = col_name c @ '' #'' @ string_of_nat (edition_in_drop job)"

text \<open>How the entries of a package are told apart: by their names.\<close>

definition isImageEntry :: "archive_entry \<Rightarrow> bool" where
  "isImageEntry e = suffix ''.png'' (entry_name e)"

definition isManifestEntry :: "archive_entry \<Rightarrow> bool" where
  "isManifestEntry e = (entry_name e = ''collection.json'')"

definition isMetadataEntry :: "archive_entry \<Rightarrow> bool" where
  "isMetadataEntry e = (suffix ''.json'' (entry_name e) \<and> \<not> isManifestEntry e)"

text \<open>Either batch entry point, by kind, and the batch size it asks for.\<close>

definition batchSize :: "env \<Rightarrow> batch_kind \<Rightarrow> nat" where
  "batchSize env kind =
     (case kind of Initial \<Rightarrow> initialBatchSize env | Continue \<Rightarrow> continueBatchSize env)"

definition invoke :: "env \<Rightarrow> batch_kind \<Rightarrow> string \<Rightarrow> job list async" where
  "invoke env kind collectionId =
     (case kind of
        Initial \<Rightarrow> processInitialBatch env collectionId
      | Continue \<Rightarrow> continueBatchProcessing env collectionId)"

text \<open>
  Sample data: an environment whose database always answers (\<open>steadyEnv\<close>: and whose
  image requests all succeed), and small stores.
\<close>

definition sampleEnv :: "(nat \<Rightarrow> string \<Rightarrow> string + string) \<Rightarrow> env" where
  "sampleEnv api =
     \<lparr> dbFails = (\<lambda>n. None), stability = api, uploadsDir = ''uploads'',
       outputDir = ''output'', initialBatchSize = 3, continueBatchSize = 100 \<rparr>"

definition steadyEnv :: env where
  "steadyEnv = sampleEnv (\<lambda>n prompt. Inr ''png'')"

definition sampleJob :: "string \<Rightarrow> nat \<Rightarrow> job_status \<Rightarrow> job" where
  "sampleJob i n s =
     \<lparr> job_id = i, collection_id = ''col'', edition_number = n, edition_in_drop = n,
       status = s, image_path = None, metadata_path = None, ai_prompt = ''a fox'',
       error_message = None, retry_count = 0 \<rparr>"

definition sampleCollection :: collection where
  "sampleCollection =
     \<lparr> col_id = ''col'', col_name = ''Fox Club'', col_symbol = ''FOX'',
       col_description = ''Foxes'', collection_number = ''7'',
       total_supply = 3, drop_supply = 3, drop_number = 1 \<rparr>"

definition sampleWorld :: "job list \<Rightarrow> world" where
  "sampleWorld js =
     \<lparr> isProcessing = False, jobs = js, collections = [sampleCollection],
       files = Map.empty, dbCalls = 0, apiCalls = 0 \<rparr>"

text \<open>An orchestrator with no batch in flight.\<close>

definition idle :: "job list \<Rightarrow> orchestrator" where
  "idle js = \<lparr> shared = sampleWorld js, inFlight = [], outcomes = [] \<rparr>"

text \<open>A row after the reset of \<open>regenerateJob\<close>, and after its successful second half.\<close>

definition resetRow :: "job \<Rightarrow> job" where
  "resetRow j = j\<lparr>status := Pending, image_path := None, metadata_path := None,
                   error_message := None\<rparr>"

definition regeneratedRow :: "env \<Rightarrow> job \<Rightarrow> job" where
  "regeneratedRow env j =
     j\<lparr>status := Generated,
        image_path := Some (path_join (uploadsDir env) (job_id j @ ''.png'')),
        metadata_path := None, error_message := None\<rparr>"

text \<open>A job that has an image, a metadata file and an error message on record.\<close>

definition staleJob :: "job_status \<Rightarrow> job" where
  "staleJob s =
     (sampleJob ''j1'' 1 s)\<lparr>image_path := Some ''uploads/j1.png'',
                             metadata_path := Some ''output/j1.json'',
                             error_message := Some ''boom''\<rparr>"

definition staleWorld :: "job_status \<Rightarrow> world" where
  "staleWorld s = (sampleWorld [staleJob s])\<lparr>files := [''uploads/j1.png'' \<mapsto> Bytes ''old'']\<rparr>"

text \<open>A store with two approved jobs whose files exist, and one pending job.\<close>

definition approvedJob :: "string \<Rightarrow> nat \<Rightarrow> job" where
  "approvedJob i n =
     (sampleJob i n Approved)\<lparr>image_path := Some (''uploads/'' @ i @ ''.png''),
                              metadata_path := Some (''output/'' @ i @ ''.json'')\<rparr>"

definition approvedWorld :: world where
  "approvedWorld =
     (sampleWorld [approvedJob ''j2'' 2, approvedJob ''j1'' 1, sampleJob ''j3'' 3 Pending])
       \<lparr>files := [''uploads/j1.png'' \<mapsto> Bytes ''i1'', ''output/j1.json'' \<mapsto> Bytes ''m1'',
                  ''uploads/j2.png'' \<mapsto> Bytes ''i2'', ''output/j2.json'' \<mapsto> Bytes ''m2'']\<rparr>"

text \<open>
  What one pass of the batch loop leaves behind when the database answers: the row of a
  job whose generation failed with message \<open>m\<close>, the row of a job whose image was
  generated, the state after the pass (\<open>settle\<close>), and the jobs the loop reports as
  processed (\<open>succeeded\<close>). The lemmas \<open>loop_body_settles\<close> and \<open>batchLoop_settles\<close> show
  that the loop computes exactly these.
\<close>

definition failedRow :: "string \<Rightarrow> job \<Rightarrow> job" where
  "failedRow m j =
     j\<lparr>status := Error, error_message := Some (''Failed to generate image: '' @ m),
        retry_count := retry_count j + 1\<rparr>"

definition generatedRow :: "env \<Rightarrow> job \<Rightarrow> job" where
  "generatedRow env j =
     j\<lparr>status := Generated,
        image_path := Some (path_join (uploadsDir env) (job_id j @ ''.png''))\<rparr>"

definition settle :: "env \<Rightarrow> world \<Rightarrow> job \<Rightarrow> world" where
  "settle env w job =
     (case stability env (apiCalls w) (ai_prompt job) of
        Inl m \<Rightarrow>
          w\<lparr>dbCalls := dbCalls w + 3, apiCalls := Suc (apiCalls w),
            jobs := map (\<lambda>j. if job_id j = job_id job then failedRow m j else j) (jobs w)\<rparr>
      | Inr imageData \<Rightarrow>
          w\<lparr>dbCalls := dbCalls w + 2, apiCalls := Suc (apiCalls w),
            files := (files w)(path_join (uploadsDir env) (job_id job @ ''.png'')
                        \<mapsto> Bytes imageData),
            jobs := map (\<lambda>j. if job_id j = job_id job then generatedRow env j else j) (jobs w)\<rparr>)"

fun succeeded :: "env \<Rightarrow> nat \<Rightarrow> job list \<Rightarrow> job list" where
  "succeeded env n [] = []"
| "succeeded env n (job # rest) =
     (case stability env n (ai_prompt job) of Inl m \<Rightarrow> [] | Inr imageData \<Rightarrow> [job])
     @ succeeded env (Suc n) rest"

text \<open>The row a job ends with, given the number of the image request made for it.\<close>

definition outcomeRow :: "env \<Rightarrow> nat \<Rightarrow> job \<Rightarrow> job" where
  "outcomeRow env n j =
     (case stability env n (ai_prompt j) of
        Inl m \<Rightarrow> failedRow m j
      | Inr imageData \<Rightarrow> generatedRow env j)"

text \<open>An image API whose first request fails, and a store with four pending jobs.\<close>

definition flakyEnv :: env where
  "flakyEnv = sampleEnv (\<lambda>n prompt. if n = 0 then Inl ''rate limit'' else Inr ''png'')"

definition pendingWorld :: world where
  "pendingWorld =
     sampleWorld [sampleJob ''j1'' 1 Pending, sampleJob ''j2'' 2 Pending,
                  sampleJob ''j3'' 3 Pending, sampleJob ''j4'' 4 Pending]"

text \<open>Reading a decimal string back (\<open>parseInt\<close> on digits): the inverse of \<open>string_of_nat\<close>.\<close>

definition digit_val :: "char \<Rightarrow> nat" where
  "digit_val c = of_char c - 48"

definition nat_of_string :: "string \<Rightarrow> nat" where
  "nat_of_string s = foldl (\<lambda>a c. 10 * a + digit_val c) 0 s"

text \<open>
  The paths the handler writes for item \<open>i\<close>, and all paths of an archive of \<open>n\<close> items in
  the order they are added.
\<close>

definition entryNames :: "nat \<Rightarrow> string list" where
  "entryNames i = [''images/'' @ paddedIndex i @ ''.png'', ''json/'' @ paddedIndex i @ ''.json'']"

definition archiveNames :: "nat \<Rightarrow> string list" where
  "archiveNames n = [''images/'', ''json/''] @ concat (map entryNames [0..<n])"

section \<open>Properties of the direct-image flow\<close>

subsection \<open>Decimal rendering and ceiling\<close>

lemma digit_char_inj: "a < 10 \<Longrightarrow> b < 10 \<Longrightarrow> digit_char a = digit_char b \<Longrightarrow> a = b"
  unfolding digit_char_def char_of_eq_iff
  by (simp add: take_bit_eq_mod)

lemma string_of_nat_nonempty: "string_of_nat n \<noteq> []"
  by (subst string_of_nat.simps) simp

lemma string_of_nat_inj: "string_of_nat n = string_of_nat m \<Longrightarrow> n = m"
proof (induction n arbitrary: m rule: string_of_nat.induct)
  case (1 n)
  show ?case
  proof (cases "n < 10")
    case n: True
    show ?thesis
    proof (cases "m < 10")
      case True
      with n "1.prems" show ?thesis
        by (simp add: string_of_nat.simps[of n] string_of_nat.simps[of m] digit_char_inj)
    next
      case False
      with n "1.prems" string_of_nat_nonempty[of "m div 10"] show ?thesis
        by (simp add: string_of_nat.simps[of n] string_of_nat.simps[of m])
    qed
  next
    case n: False
    show ?thesis
    proof (cases "m < 10")
      case True
      with n "1.prems" string_of_nat_nonempty[of "n div 10"] show ?thesis
        by (simp add: string_of_nat.simps[of n] string_of_nat.simps[of m])
    next
      case False
      with n "1.prems" have eq: "string_of_nat (n div 10) = string_of_nat (m div 10)"
        and d: "digit_char (n mod 10) = digit_char (m mod 10)"
        by (simp_all add: string_of_nat.simps[of n] string_of_nat.simps[of m])
      from "1.IH"[OF n eq] have "n div 10 = m div 10" .
      moreover from d have "n mod 10 = m mod 10" by (intro digit_char_inj) simp_all
      ultimately show ?thesis by (metis div_mult_mod_eq)
    qed
  qed
qed

lemma artIdOf_inj: "artIdOf t a = artIdOf t b \<longleftrightarrow> a = b"
  by (auto simp: artIdOf_def dest: string_of_nat_inj)

lemma editions_sum_from:
  assumes "n \<le> k * e"
  shows "sum_list (map (\<lambda>j. min e (n - j * e)) [i..<k]) = n - i * e"
  using assms
proof (induction "k - i" arbitrary: i)
  case 0
  then have "k \<le> i" by simp
  then have "k * e \<le> i * e" by (rule mult_le_mono1)
  with "0.prems" have "n \<le> i * e" by (rule order_trans)
  then have z: "n - i * e = 0" by simp
  from \<open>k \<le> i\<close> have nil: "[i..<k] = []" by simp
  show ?case unfolding nil z by simp
next
  case (Suc d)
  then have lt: "i < k" and d: "d = k - Suc i" by simp_all
  have "sum_list (map (\<lambda>j. min e (n - j * e)) [i..<k]) =
          min e (n - i * e) + sum_list (map (\<lambda>j. min e (n - j * e)) [Suc i..<k])"
    using lt by (simp add: upt_conv_Cons)
  also have "\<dots> = min e (n - i * e) + (n - Suc i * e)"
    using Suc.hyps(1)[OF d Suc.prems] by simp
  also have "\<dots> = n - i * e"
  proof -
    have "min e (n - x) + (n - (e + x)) = n - x" for x :: nat
      by (cases "e \<le> n - x") simp_all
    from this[of "i * e"] show ?thesis by simp
  qed
  finally show ?case .
qed

lemma ceil_bound: "0 < e \<Longrightarrow> n \<le> ((n + e - 1) div e) * e"
  for n e :: nat
proof -
  assume e: "0 < e"
  have "n + e - 1 = ((n + e - 1) div e) * e + (n + e - 1) mod e" by simp
  moreover have "(n + e - 1) mod e < e" using e by simp
  ultimately show ?thesis using e by linarith
qed

lemma ceil_div_real:
  "0 < e \<Longrightarrow> ceil_div n e = Num (nat \<lceil>real n / real e\<rceil>)"
proof -
  assume e: "0 < e"
  let ?k = "(n + e - 1) div e"
  have up: "n \<le> ?k * e" using e by (rule ceil_bound)
  have lo: "?k * e < n + e"
  proof -
    have "?k * e \<le> n + e - 1" by (rule div_times_less_eq_dividend)
    with e show ?thesis by linarith
  qed
  have "\<lceil>real n / real e\<rceil> = int ?k"
  proof (rule ceiling_unique)
    have "real (?k * e) < real (n + e)" using lo by (simp only: of_nat_less_iff)
    then have "real ?k * real e < real n + real e" by simp
    then have "(real ?k - 1) * real e < real n" by (simp add: algebra_simps)
    then show "of_int (int ?k) - 1 < real n / real e"
      using e by (simp add: pos_less_divide_eq)
    have "real n \<le> real (?k * e)" using up by (simp only: of_nat_le_iff)
    then show "real n / real e \<le> of_int (int ?k)"
      using e by (simp add: pos_divide_le_eq)
  qed
  then show ?thesis using e by (simp add: ceil_div_def)
qed

subsection \<open>The loops of createJobQueue\<close>

lemma upt_shift: "e \<le> k \<Longrightarrow> [0..<Suc k - e] = 0 # map Suc [0..<k - e]"
  by (simp add: Suc_diff_le upt_conv_Cons map_Suc_upt del: upt_Suc)

lemma editionLoop_eq:
  "editionLoop t i k e (q, c) =
     (q @ map (\<lambda>d. mkJob t i (e + d) k (c + d)) [0..<Suc k - e], c + (Suc k - e))"
proof (induction t i k e "(q, c)" arbitrary: q c rule: editionLoop.induct)
  case (1 t i k e q c)
  show ?case
  proof (cases "e \<le> k")
    case True
    have "editionLoop t i k e (q, c) =
            editionLoop t i k (Suc e) (q @ [mkJob t i e k c], Suc c)"
      using True by (subst editionLoop.simps) simp
    also have "\<dots> = ((q @ [mkJob t i e k c]) @
        map (\<lambda>d. mkJob t i (Suc e + d) k (Suc c + d)) [0..<Suc k - Suc e],
        Suc c + (Suc k - Suc e))"
      using True by (rule 1)
    also have "\<dots> = (q @ map (\<lambda>d. mkJob t i (e + d) k (c + d)) [0..<Suc k - e],
        c + (Suc k - e))"
    proof -
      have eq: "[0..<Suc k - e] = 0 # map Suc [0..<Suc k - Suc e]"
        using True by (simp add: upt_shift)
      show ?thesis unfolding eq using True by (simp add: comp_def)
    qed
    finally show ?thesis .
  next
    case False
    then show ?thesis by (subst editionLoop.simps) simp
  qed
qed

lemma editionLoop_imageJobs:
  "editionLoop t i (editionsForThisImage t i) 1 (q, c) =
     (q @ imageJobs t i c, c + length (imageJobs t i c))"
  by (simp add: editionLoop_eq imageJobs_def)

lemma editionLoop_imageJobs':
  "editionLoop t i (editionsForThisImage t i) (Suc 0) (q, c) =
     (q @ imageJobs t i c, c + length (imageJobs t i c))"
  using editionLoop_imageJobs[of t i q c] by simp

lemma map_plus_upt: "map (\<lambda>d. c + d) [0..<k] = [c..<c + k]"
  by (induction k) simp_all

lemma length_imageJobs [simp]: "length (imageJobs t i c) = editionsForThisImage t i"
  by (simp add: imageJobs_def)

lemma globalIndex_imageJobs:
  "map globalIndex (imageJobs t i c) = [c..<c + editionsForThisImage t i]"
  by (simp add: imageJobs_def mkJob_def comp_def map_plus_upt)

lemma imageJobs_member:
  assumes "j \<in> set (imageJobs t i c)"
  shows "j = mkJob t i (editionNumber j) (editionsForThisImage t i) (globalIndex j)
         \<and> 1 \<le> editionNumber j \<and> editionNumber j \<le> editionsForThisImage t i"
  using assms by (auto simp: imageJobs_def mkJob_def)

lemma filter_artId_imageJobs:
  "filter (\<lambda>j. artId j = artIdOf t m) (imageJobs t i c) = (if m = i then imageJobs t i c else [])"
  by (auto simp: imageJobs_def mkJob_def artIdOf_inj filter_map comp_def)

lemma imageLoop_inv:
  "\<exists>new. imageLoop t needed i (q, c) = (q @ new, c + length new)
     \<and> length new = sum_list (map (editionsForThisImage t) [i..<needed])
     \<and> map globalIndex new = [c..<c + length new]
     \<and> (\<forall>j\<in>set new. \<exists>m. i \<le> m \<and> m < needed
            \<and> j = mkJob t m (editionNumber j) (editionsForThisImage t m) (globalIndex j)
            \<and> 1 \<le> editionNumber j \<and> editionNumber j \<le> editionsForThisImage t m)
     \<and> (\<forall>m. length (filter (\<lambda>j. artId j = artIdOf t m) new) =
            (if i \<le> m \<and> m < needed then editionsForThisImage t m else 0))"
proof (induction t needed i "(q, c)" arbitrary: q c rule: imageLoop.induct)
  case (1 t needed i q c)
  show ?case
  proof (cases "i < needed")
    case False
    then have "imageLoop t needed i (q, c) = (q @ [], c + length ([]::job_seed list))"
      by (subst imageLoop.simps) simp
    with False show ?thesis by (intro exI[of _ "[]"]) simp
  next
    case True
    let ?E = "imageJobs t i c"
    let ?k = "editionsForThisImage t i"
    from "1"[OF True editionLoop_imageJobs[of t i q c]]
    obtain new where
      run: "imageLoop t needed (Suc i) (q @ ?E, c + length ?E) = ((q @ ?E) @ new, c + length ?E + length new)"
      and len: "length new = sum_list (map (editionsForThisImage t) [Suc i..<needed])"
      and idx: "map globalIndex new = [c + length ?E..<c + length ?E + length new]"
      and mem: "\<forall>j\<in>set new. \<exists>m. Suc i \<le> m \<and> m < needed
            \<and> j = mkJob t m (editionNumber j) (editionsForThisImage t m) (globalIndex j)
            \<and> 1 \<le> editionNumber j \<and> editionNumber j \<le> editionsForThisImage t m"
      and cnt: "\<forall>m. length (filter (\<lambda>j. artId j = artIdOf t m) new) =
            (if Suc i \<le> m \<and> m < needed then editionsForThisImage t m else 0)"
      by blast
    have step: "imageLoop t needed i (q, c) = (q @ (?E @ new), c + length (?E @ new))"
      using True run by (subst imageLoop.simps) (simp add: editionLoop_imageJobs' add.assoc)
    have l: "length (?E @ new) = sum_list (map (editionsForThisImage t) [i..<needed])"
      using True len by (simp add: upt_conv_Cons)
    have g: "map globalIndex (?E @ new) = [c..<c + length (?E @ new)]"
    proof -
      have "[c..<c + (?k + length new)] = [c..<c + ?k] @ [c + ?k..<c + ?k + length new]"
        by (metis add.assoc le_add1 upt_add_eq_append)
      then show ?thesis using idx by (simp add: globalIndex_imageJobs)
    qed
    have m: "\<forall>j\<in>set (?E @ new). \<exists>m. i \<le> m \<and> m < needed
            \<and> j = mkJob t m (editionNumber j) (editionsForThisImage t m) (globalIndex j)
            \<and> 1 \<le> editionNumber j \<and> editionNumber j \<le> editionsForThisImage t m"
    proof
      fix j assume "j \<in> set (?E @ new)"
      then consider "j \<in> set ?E" | "j \<in> set new" by auto
      then show "\<exists>m. i \<le> m \<and> m < needed
            \<and> j = mkJob t m (editionNumber j) (editionsForThisImage t m) (globalIndex j)
            \<and> 1 \<le> editionNumber j \<and> editionNumber j \<le> editionsForThisImage t m"
      proof cases
        case 1
        from imageJobs_member[OF 1] True show ?thesis by blast
      next
        case 2
        with mem obtain m where "Suc i \<le> m" "m < needed"
          "j = mkJob t m (editionNumber j) (editionsForThisImage t m) (globalIndex j)"
          "1 \<le> editionNumber j" "editionNumber j \<le> editionsForThisImage t m" by blast
        then show ?thesis by (intro exI[of _ m]) simp
      qed
    qed
    have f: "\<forall>m. length (filter (\<lambda>j. artId j = artIdOf t m) (?E @ new)) =
            (if i \<le> m \<and> m < needed then editionsForThisImage t m else 0)"
    proof
      fix m
      show "length (filter (\<lambda>j. artId j = artIdOf t m) (?E @ new)) =
            (if i \<le> m \<and> m < needed then editionsForThisImage t m else 0)"
        using True cnt[rule_format, of m] by (auto simp: filter_artId_imageJobs)
    qed
    from step l g m f show ?thesis by blast
  qed
qed

lemma imagesNeeded_cases:
  obtains (nan) "nftCount t = 0" "editionsPerImage t = 0" "imagesNeeded t = NaN"
  | (inf) "0 < nftCount t" "editionsPerImage t = 0" "imagesNeeded t = Infinity"
  | (num) "0 < editionsPerImage t"
      "imagesNeeded t = Num ((nftCount t + editionsPerImage t - 1) div editionsPerImage t)"
  unfolding imagesNeeded_def ceil_div_def by (cases "editionsPerImage t = 0"; cases "nftCount t = 0") auto

lemma sum_editions:
  assumes "0 < editionsPerImage t"
  shows "sum_list (map (editionsForThisImage t)
           [0..<(nftCount t + editionsPerImage t - 1) div editionsPerImage t]) = nftCount t"
proof -
  have "editionsForThisImage t = (\<lambda>j. min (editionsPerImage t) (nftCount t - j * editionsPerImage t))"
    by (rule ext) (simp add: editionsForThisImage_def)
  then show ?thesis
    using editions_sum_from[OF ceil_bound[OF assms, of "nftCount t"], of 0] by simp
qed

lemma expandTier_ok:
  assumes "\<not> js_less (length (images t)) (imagesNeeded t)"
  shows "\<exists>new. expandTier t (q, c) = Inr (q @ new, c + length new)
           \<and> length new = nftCount t
           \<and> map globalIndex new = [c..<c + length new]"
proof (cases t rule: imagesNeeded_cases)
  case nan
  then show ?thesis by (intro exI[of _ "[]"]) (simp add: expandTier_def)
next
  case inf
  with assms show ?thesis by simp
next
  case num
  let ?k = "(nftCount t + editionsPerImage t - 1) div editionsPerImage t"
  from imageLoop_inv[of t ?k 0 q c] obtain new where
    "imageLoop t ?k 0 (q, c) = (q @ new, c + length new)"
    "length new = sum_list (map (editionsForThisImage t) [0..<?k])"
    "map globalIndex new = [c..<c + length new]" by blast
  with assms num sum_editions[OF num(1)] show ?thesis
    by (intro exI[of _ new]) (simp add: expandTier_def)
qed

lemma tierLoop_ok:
  assumes "\<forall>t\<in>set ts. \<not> js_less (length (images t)) (imagesNeeded t)"
  shows "\<exists>new. tierLoop ts (q, c) = Inr (q @ new, c + length new)
           \<and> length new = sum_list (map nftCount ts)
           \<and> map globalIndex new = [c..<c + length new]"
  using assms
proof (induction ts arbitrary: q c)
  case Nil
  show ?case by (intro exI[of _ "[]"]) simp
next
  case (Cons t ts)
  from Cons.prems have okt: "\<not> js_less (length (images t)) (imagesNeeded t)"
    and okts: "\<forall>t\<in>set ts. \<not> js_less (length (images t)) (imagesNeeded t)" by simp_all
  from expandTier_ok[OF okt, of q c] obtain a where
    a: "expandTier t (q, c) = Inr (q @ a, c + length a)" "length a = nftCount t"
       "map globalIndex a = [c..<c + length a]" by blast
  from Cons.IH[OF okts, of "q @ a" "c + length a"] obtain b where
    b: "tierLoop ts (q @ a, c + length a) = Inr ((q @ a) @ b, c + length a + length b)"
       "length b = sum_list (map nftCount ts)"
       "map globalIndex b = [c + length a..<c + length a + length b]" by blast
  have "[c..<c + (length a + length b)] = [c..<c + length a] @ [c + length a..<c + length a + length b]"
    by (metis add.assoc le_add1 upt_add_eq_append)
  with a b show ?case
    by (intro exI[of _ "a @ b"]) (simp add: add.assoc)
qed

lemma tierLoop_append:
  assumes "\<forall>t\<in>set pre. \<not> js_less (length (images t)) (imagesNeeded t)"
  shows "\<exists>st'. tierLoop (pre @ rest) st = tierLoop rest st'"
  using assms
proof (induction pre arbitrary: st)
  case Nil
  show ?case by (rule exI[of _ st]) (simp only: append_Nil)
next
  case (Cons t pre)
  obtain q c where st: "st = (q, c)" by (cases st)
  from Cons.prems have okt: "\<not> js_less (length (images t)) (imagesNeeded t)"
    and okts: "\<forall>t\<in>set pre. \<not> js_less (length (images t)) (imagesNeeded t)" by simp_all
  from expandTier_ok[OF okt, of q c] obtain a where
    a: "expandTier t (q, c) = Inr (q @ a, c + length a)" by blast
  from Cons.IH[OF okts, of "(q @ a, c + length a)"] a st show ?case by simp
qed

lemma first_offender:
  assumes "t \<in> set ts" "P t"
  shows "\<exists>pre u post. ts = pre @ u # post \<and> P u \<and> (\<forall>v\<in>set pre. \<not> P v)"
  using assms by (metis split_list_first_prop)

lemma below_ceil:
  fixes n e m :: nat
  assumes "0 < e" "m < (n + e - 1) div e"
  shows "m * e < n"
proof -
  from assms(2) have "Suc m \<le> (n + e - 1) div e" by simp
  then have "Suc m * e \<le> ((n + e - 1) div e) * e" by (rule mult_le_mono1)
  also have "\<dots> \<le> n + e - 1" by (rule div_times_less_eq_dividend)
  finally have "m * e + e \<le> n + e - 1" by simp
  with assms(1) show ?thesis by linarith
qed

lemma editionsForThisImage_le: "editionsForThisImage t m \<le> editionsPerImage t"
  by (simp add: editionsForThisImage_def)

lemma editions_of_expanded_tier:
  assumes "expandTier t (q, c) = Inr (q', c')"
  shows "\<exists>new. q' = q @ new \<and>
     (\<forall>j\<in>set new. \<exists>imageIndex.
          1 \<le> editionNumber j \<and> editionNumber j \<le> editionsPerImage t
        \<and> artId j = artIdOf t imageIndex
        \<and> imageIndex < length (images t)
        \<and> sourceImage j = Some (images t ! imageIndex)
        \<and> imageIndex * editionsPerImage t < nftCount t
        \<and> editionTotal j = min (editionsPerImage t) (nftCount t - imageIndex * editionsPerImage t)
        \<and> editionNumber j \<le> editionTotal j
        \<and> length (filter (\<lambda>j'. artId j' = artId j) new) = editionTotal j)"
proof (cases t rule: imagesNeeded_cases)
  case nan
  with assms show ?thesis by (intro exI[of _ "[]"]) (auto simp: expandTier_def)
next
  case inf
  with assms show ?thesis by (simp add: expandTier_def)
next
  case num
  let ?k = "(nftCount t + editionsPerImage t - 1) div editionsPerImage t"
  from assms num have cap: "?k \<le> length (images t)"
    and run: "imageLoop t ?k 0 (q, c) = (q', c')"
    by (auto simp: expandTier_def split: if_splits)
  from imageLoop_inv[of t ?k 0 q c] run obtain new where
    q': "q' = q @ new"
    and mem: "\<forall>j\<in>set new. \<exists>m. 0 \<le> m \<and> m < ?k
            \<and> j = mkJob t m (editionNumber j) (editionsForThisImage t m) (globalIndex j)
            \<and> 1 \<le> editionNumber j \<and> editionNumber j \<le> editionsForThisImage t m"
    and cnt: "\<forall>m. length (filter (\<lambda>j. artId j = artIdOf t m) new) =
            (if 0 \<le> m \<and> m < ?k then editionsForThisImage t m else 0)"
    by auto
  have "\<exists>imageIndex.
          1 \<le> editionNumber j \<and> editionNumber j \<le> editionsPerImage t
        \<and> artId j = artIdOf t imageIndex
        \<and> imageIndex < length (images t)
        \<and> sourceImage j = Some (images t ! imageIndex)
        \<and> imageIndex * editionsPerImage t < nftCount t
        \<and> editionTotal j = min (editionsPerImage t) (nftCount t - imageIndex * editionsPerImage t)
        \<and> editionNumber j \<le> editionTotal j
        \<and> length (filter (\<lambda>j'. artId j' = artId j) new) = editionTotal j"
    if j: "j \<in> set new" for j
  proof -
    from mem j obtain m where m: "m < ?k"
      and jm: "j = mkJob t m (editionNumber j) (editionsForThisImage t m) (globalIndex j)"
      and lo: "1 \<le> editionNumber j" and hi: "editionNumber j \<le> editionsForThisImage t m"
      by blast
    from jm have a: "artId j = artIdOf t m" and s: "sourceImage j = imageAt t m"
      and tot: "editionTotal j = editionsForThisImage t m"
      by (metis mkJob_def job_seed.select_convs)+
    from m cap have inr: "m < length (images t)" by simp
    from below_ceil[OF num(1) m] have pos: "m * editionsPerImage t < nftCount t" .
    from cnt m a tot have c: "length (filter (\<lambda>j'. artId j' = artId j) new) = editionTotal j"
      by simp
    from hi editionsForThisImage_le[of t m] have "editionNumber j \<le> editionsPerImage t"
      by (rule order_trans)
    with lo hi a s tot inr pos c show ?thesis
      by (intro exI[of _ m]) (simp add: imageAt_def editionsForThisImage_def)
  qed
  with q' show ?thesis by blast
qed

lemma exampleTier_run:
  "map (\<lambda>j. (artId j, editionNumber j, editionTotal j)) (fst (imageLoop exampleTier 3 0 ([], 0)))
     = [(''ltd-1'', 1, 3), (''ltd-1'', 2, 3), (''ltd-1'', 3, 3),
        (''ltd-2'', 1, 3), (''ltd-2'', 2, 3), (''ltd-2'', 3, 3),
        (''ltd-3'', 1, 1)]"
  by code_simp

lemma exampleTier_expand:
  "expandTier exampleTier ([], 0) = Inr (imageLoop exampleTier 3 0 ([], 0))"
  by (simp add: expandTier_def imagesNeeded_def ceil_div_def exampleTier_def)

text \<open>
  C2. Whenever a tier is expanded, every job seed it adds has \<open>editionNumber\<close> between 1
  and \<open>editionsPerImage\<close>, comes from an image slot \<open>imageIndex\<close> inside the tier's image
  list, and carries \<open>editionTotal = min(editionsPerImage, nftCount - imageIndex *
  editionsPerImage)\<close> (the difference is positive, so nothing is cut off), which is also
  the number of seeds the tier produced for that image (those sharing its \<open>artId\<close>). For
  \<open>nftCount = 7\<close> and \<open>editionsPerImage = 3\<close> the three images get 3, 3 and 1 editions.
\<close>

theorem expandTier_editions:
  assumes "expandTier t (q, c) = Inr (q', c')"
  shows "(\<exists>new. q' = q @ new \<and>
     (\<forall>j\<in>set new. \<exists>imageIndex.
          1 \<le> editionNumber j \<and> editionNumber j \<le> editionsPerImage t
        \<and> artId j = artIdOf t imageIndex
        \<and> imageIndex < length (images t)
        \<and> sourceImage j = Some (images t ! imageIndex)
        \<and> imageIndex * editionsPerImage t < nftCount t
        \<and> editionTotal j = min (editionsPerImage t) (nftCount t - imageIndex * editionsPerImage t)
        \<and> editionNumber j \<le> editionTotal j
        \<and> length (filter (\<lambda>j'. artId j' = artId j) new) = editionTotal j))
   \<and> map (\<lambda>j. (artId j, editionNumber j, editionTotal j))
         (case expandTier exampleTier ([], 0) of Inl e \<Rightarrow> [] | Inr (jobQueue, n) \<Rightarrow> jobQueue)
       = [(''ltd-1'', 1, 3), (''ltd-1'', 2, 3), (''ltd-1'', 3, 3),
          (''ltd-2'', 1, 3), (''ltd-2'', 2, 3), (''ltd-2'', 3, 3),
          (''ltd-3'', 1, 1)]"
proof
  show "\<exists>new. q' = q @ new \<and>
     (\<forall>j\<in>set new. \<exists>imageIndex.
          1 \<le> editionNumber j \<and> editionNumber j \<le> editionsPerImage t
        \<and> artId j = artIdOf t imageIndex
        \<and> imageIndex < length (images t)
        \<and> sourceImage j = Some (images t ! imageIndex)
        \<and> imageIndex * editionsPerImage t < nftCount t
        \<and> editionTotal j = min (editionsPerImage t) (nftCount t - imageIndex * editionsPerImage t)
        \<and> editionNumber j \<le> editionTotal j
        \<and> length (filter (\<lambda>j'. artId j' = artId j) new) = editionTotal j)"
    using assms by (rule editions_of_expanded_tier)
  show "map (\<lambda>j. (artId j, editionNumber j, editionTotal j))
         (case expandTier exampleTier ([], 0) of Inl e \<Rightarrow> [] | Inr (jobQueue, n) \<Rightarrow> jobQueue)
       = [(''ltd-1'', 1, 3), (''ltd-1'', 2, 3), (''ltd-1'', 3, 3),
          (''ltd-2'', 1, 3), (''ltd-2'', 2, 3), (''ltd-2'', 3, 3),
          (''ltd-3'', 1, 1)]"
    using exampleTier_run by (auto simp: exampleTier_expand split: prod.split)
qed

lemma expandTier_short:
  "js_less (length (images t)) (imagesNeeded t) \<Longrightarrow>
   expandTier t st = Inl (TierCapacityError (tierType t) (imagesNeeded t) (length (images t)))"
  by (simp add: expandTier_def)

lemma tierLoop_first_short:
  assumes "\<forall>v\<in>set pre. \<not> js_less (length (images v)) (imagesNeeded v)"
    and "js_less (length (images u)) (imagesNeeded u)"
  shows "tierLoop (pre @ u # post) st =
           Inl (TierCapacityError (tierType u) (imagesNeeded u) (length (images u)))"
proof -
  from tierLoop_append[OF assms(1), of "u # post" st] obtain st' where
    "tierLoop (pre @ u # post) st = tierLoop (u # post) st'" by blast
  then show ?thesis by (simp add: expandTier_short[OF assms(2)])
qed

lemma processedTiers_images:
  "processedTiers (map (\<lambda>t. t\<lparr>images := []\<rparr>) [hd examplePlan, shortTier])
      (images (hd examplePlan) @ images shortTier) = [hd examplePlan, shortTier]"
  by code_simp

text \<open>
  C7. If some tier of the plan has fewer images than \<open>ceil(nftCount / editionsPerImage)\<close>,
  \<open>createJobQueue\<close> throws at the first such tier: the result is the error alone (no job
  seed is returned), it carries that tier's label, the number of images needed and the
  number provided, and the request handler answers with status 500 and that message
  without building any archive.
\<close>

theorem createJobQueue_capacity_error:
  assumes "t \<in> set rarityTiers" and "js_less (length (images t)) (imagesNeeded t)"
  shows "\<exists>pre u post. rarityTiers = pre @ u # post
           \<and> (\<forall>v\<in>set pre. \<not> js_less (length (images v)) (imagesNeeded v))
           \<and> js_less (length (images u)) (imagesNeeded u)
           \<and> createJobQueue rarityTiers totalSupply =
               Inl (TierCapacityError (tierType u) (imagesNeeded u) (length (images u)))
           \<and> (\<forall>rnd toPng cd raw randomizeOrder uploadedFiles.
                 processedTiers raw uploadedFiles = rarityTiers \<and> uploadedFiles \<noteq> [] \<longrightarrow>
                 generate rnd toPng cd raw totalSupply randomizeOrder uploadedFiles =
                   Status500 ''Generation failed''
                     (''Tier '' @ [CHR 0x22] @ tierType u @ [CHR 0x22] @ '' needs ''
                        @ string_of_jsnum (imagesNeeded u) @ '' images but only ''
                        @ string_of_nat (length (images u)) @ '' provided''))"
proof -
  from first_offender[of t rarityTiers "\<lambda>t. js_less (length (images t)) (imagesNeeded t)", OF assms]
  obtain pre u post where split: "rarityTiers = pre @ u # post"
    and u: "js_less (length (images u)) (imagesNeeded u)"
    and pre: "\<forall>v\<in>set pre. \<not> js_less (length (images v)) (imagesNeeded v)" by blast
  from tierLoop_first_short[OF pre u, of post "([], 0)"] split
  have err: "createJobQueue rarityTiers totalSupply =
               Inl (TierCapacityError (tierType u) (imagesNeeded u) (length (images u)))"
    by (simp add: createJobQueue_def)
  then have "generate rnd toPng cd raw totalSupply randomizeOrder uploadedFiles =
                   Status500 ''Generation failed''
                     (''Tier '' @ [CHR 0x22] @ tierType u @ [CHR 0x22] @ '' needs ''
                        @ string_of_jsnum (imagesNeeded u) @ '' images but only ''
                        @ string_of_nat (length (images u)) @ '' provided'')"
    if "processedTiers raw uploadedFiles = rarityTiers" "uploadedFiles \<noteq> []"
    for rnd toPng cd raw randomizeOrder uploadedFiles
    using that by (simp add: generate_def)
  with split u pre err show ?thesis by blast
qed

lemma shortTier_needs:
  "imagesNeeded shortTier = Num 5" "length (images shortTier) = 4" "tierType shortTier = ''common''"
  by (simp_all add: shortTier_def imagesNeeded_def ceil_div_def)

lemma digits_4_5: "string_of_nat 4 = ''4''" "string_of_nat 5 = ''5''"
  by code_simp+

theorem createJobQueue_capacity_error_witness:
  "js_less (length (images shortTier)) (imagesNeeded shortTier)
   \<and> createJobQueue [hd examplePlan, shortTier] 12 = Inl (TierCapacityError ''common'' (Num 5) 4)
   \<and> generate (\<lambda>i. 0) (\<lambda>b. Some b) \<lparr>projectName = ''P'', symbol = ''S'', description = ''D''\<rparr>
        (map (\<lambda>t. t\<lparr>images := []\<rparr>) [hd examplePlan, shortTier]) 12 False
        (images (hd examplePlan) @ images shortTier)
       = Status500 ''Generation failed''
           (''Tier '' @ [CHR 0x22] @ ''common'' @ [CHR 0x22] @ '' needs 5 images but only 4 provided'')"
proof -
  have short: "js_less (length (images shortTier)) (imagesNeeded shortTier)"
    by (simp add: shortTier_needs)
  have ok: "\<not> js_less (length (images (hd examplePlan))) (imagesNeeded (hd examplePlan))"
    by (simp add: examplePlan_def imagesNeeded_def ceil_div_def)
  have ne: "hd examplePlan \<noteq> shortTier"
    by (simp add: examplePlan_def shortTier_def)
  from createJobQueue_capacity_error[of shortTier "[hd examplePlan, shortTier]" 12, OF _ short]
  obtain pre u post where split: "[hd examplePlan, shortTier] = pre @ u # post"
    and pre: "\<forall>v\<in>set pre. \<not> js_less (length (images v)) (imagesNeeded v)"
    and u: "js_less (length (images u)) (imagesNeeded u)"
    and err: "createJobQueue [hd examplePlan, shortTier] 12 =
               Inl (TierCapacityError (tierType u) (imagesNeeded u) (length (images u)))"
    and h: "\<And>rnd toPng cd raw randomizeOrder uploadedFiles.
                 processedTiers raw uploadedFiles = [hd examplePlan, shortTier] \<Longrightarrow>
                 uploadedFiles \<noteq> [] \<Longrightarrow>
                 generate rnd toPng cd raw 12 randomizeOrder uploadedFiles =
                   Status500 ''Generation failed''
                     (''Tier '' @ [CHR 0x22] @ tierType u @ [CHR 0x22] @ '' needs ''
                        @ string_of_jsnum (imagesNeeded u) @ '' images but only ''
                        @ string_of_nat (length (images u)) @ '' provided'')"
    by auto
  have "u = hd examplePlan \<or> u = shortTier"
  proof -
    have "u \<in> set (pre @ u # post)" by simp
    then show ?thesis unfolding split[symmetric] by simp
  qed
  with u ok have eq: "u = shortTier" by blast
  have files: "images (hd examplePlan) @ images shortTier \<noteq> []"
    by (simp add: shortTier_def)
  note gen = h[OF processedTiers_images files, of "\<lambda>i. 0" "\<lambda>b. Some b"
      "\<lparr>projectName = ''P'', symbol = ''S'', description = ''D''\<rparr>" False]
  from err have e: "createJobQueue [hd examplePlan, shortTier] 12 =
      Inl (TierCapacityError ''common'' (Num 5) 4)"
    unfolding eq by (simp only: shortTier_needs)
  from gen have g: "generate (\<lambda>i. 0) (\<lambda>b. Some b) \<lparr>projectName = ''P'', symbol = ''S'', description = ''D''\<rparr>
        (map (\<lambda>t. t\<lparr>images := []\<rparr>) [hd examplePlan, shortTier]) 12 False
        (images (hd examplePlan) @ images shortTier)
       = Status500 ''Generation failed''
           (''Tier '' @ [CHR 0x22] @ ''common'' @ [CHR 0x22] @ '' needs 5 images but only 4 provided'')"
    unfolding eq by (simp only: shortTier_needs string_of_jsnum.simps digits_4_5) simp
  from short e g show ?thesis by (intro conjI)
qed

lemma length_string_of_nat_le:
  "0 < k \<Longrightarrow> n < 10 ^ k \<Longrightarrow> length (string_of_nat n) \<le> k"
proof (induction k arbitrary: n)
  case 0
  then show ?case by simp
next
  case (Suc k)
  show ?case
  proof (cases "n < 10")
    case True
    then show ?thesis by (subst string_of_nat.simps) simp
  next
    case False
    with Suc.prems have "0 < k" by (cases k) auto
    moreover from Suc.prems have "n div 10 < 10 ^ k" by (simp add: less_mult_imp_div_less mult.commute)
    ultimately have "length (string_of_nat (n div 10)) \<le> k" by (rule Suc.IH)
    with False show ?thesis by (subst string_of_nat.simps) simp
  qed
qed

lemma length_string_of_nat_gt:
  "10 ^ k \<le> n \<Longrightarrow> k < length (string_of_nat n)"
proof (induction k arbitrary: n)
  case 0
  then show ?case using string_of_nat_nonempty[of n] by simp
next
  case (Suc k)
  then have "10 \<le> n" by (metis le_trans one_le_numeral one_le_power power_Suc mult.right_neutral mult_le_mono2)
  moreover from Suc.prems have "10 ^ k \<le> n div 10"
    by (simp add: less_eq_div_iff_mult_less_eq mult.commute)
  then have "k < length (string_of_nat (n div 10))" by (rule Suc.IH)
  ultimately show ?case by (subst string_of_nat.simps) simp
qed

lemma length_paddedIndex: "length (paddedIndex i) = max 5 (length (string_of_nat i))"
  by (simp add: paddedIndex_def padStart_def)

lemma digit_val_digit_char: "d < 10 \<Longrightarrow> digit_val (digit_char d) = d"
  by (simp add: digit_val_def digit_char_def)

lemma nat_of_string_snoc: "nat_of_string (s @ [c]) = 10 * nat_of_string s + digit_val c"
  by (simp add: nat_of_string_def)

lemma nat_of_string_of_nat: "nat_of_string (string_of_nat n) = n"
proof (induction n rule: string_of_nat.induct)
  case (1 n)
  show ?case
  proof (cases "n < 10")
    case True
    then show ?thesis
      by (subst string_of_nat.simps) (simp add: nat_of_string_def digit_val_digit_char)
  next
    case False
    with 1 have "nat_of_string (string_of_nat (n div 10)) = n div 10" by simp
    with False show ?thesis
      by (subst string_of_nat.simps) (simp add: nat_of_string_snoc digit_val_digit_char)
  qed
qed

lemma nat_of_string_zeros: "nat_of_string (replicate k (CHR ''0'') @ s) = nat_of_string s"
proof -
  have "foldl (\<lambda>a c. 10 * a + digit_val c) 0 (replicate k (CHR ''0'')) = 0"
    by (induction k) (simp_all add: digit_val_def)
  then show ?thesis by (simp add: nat_of_string_def)
qed

lemma nat_of_paddedIndex: "nat_of_string (paddedIndex i) = i"
  by (simp add: paddedIndex_def padStart_def nat_of_string_zeros nat_of_string_of_nat)

lemma paddedIndex_inj: "paddedIndex i = paddedIndex j \<Longrightarrow> i = j"
  by (metis nat_of_paddedIndex)

lemma zipFile_fresh: "name \<notin> fst ` set z \<Longrightarrow> zipFile name data z = z @ [(name, data)]"
  by (induction z) auto

lemma archiveNames_Suc: "archiveNames (Suc n) = archiveNames n @ entryNames n"
  by (simp add: archiveNames_def)

lemma image_name_fresh: "''images/'' @ paddedIndex i @ ''.png'' \<notin> set (archiveNames n)" if "n \<le> i"
  using that
proof (induction n)
  case 0
  show ?case by (simp add: archiveNames_def)
next
  case (Suc n)
  then have "n \<noteq> i" "n \<le> i" by simp_all
  with Suc.IH show ?case
    by (auto simp: archiveNames_Suc entryNames_def dest: paddedIndex_inj)
qed

lemma json_name_fresh:
  "''json/'' @ paddedIndex i @ ''.json'' \<notin> set (archiveNames n @ [''images/'' @ paddedIndex i @ ''.png''])"
  if "n \<le> i"
  using that
proof (induction n)
  case 0
  show ?case by (simp add: archiveNames_def)
next
  case (Suc n)
  then have "n \<noteq> i" "n \<le> i" by simp_all
  with Suc.IH show ?case
    by (auto simp: archiveNames_Suc entryNames_def dest: paddedIndex_inj)
qed

lemma processLoop_names:
  assumes "\<forall>k<totalSupply. k < length finalQueue \<and> sourceImage (finalQueue ! k) \<noteq> None"
    and "i \<le> totalSupply" and "map fst z = archiveNames i"
  shows "\<exists>z'. processLoop toPng cd finalQueue totalSupply i z = Some z'
           \<and> map fst z' = archiveNames totalSupply"
  using assms
proof (induction toPng cd finalQueue totalSupply i z rule: processLoop.induct)
  case (1 toPng cd finalQueue totalSupply i z)
  show ?case
  proof (cases "i < totalSupply")
    case False
    with "1.prems" have "i = totalSupply" by simp
    with "1.prems" show ?thesis by (subst processLoop.simps) simp
  next
    case True
    with "1.prems"(1) obtain img where len: "i < length finalQueue"
      and img: "sourceImage (finalQueue ! i) = Some img" by auto
    let ?z1 = "zipFile (''images/'' @ paddedIndex i @ ''.png'')
                 (ImageData (processImage toPng (buffer img))) z"
    let ?z2 = "zipFile (''json/'' @ paddedIndex i @ ''.json'')
                 (JsonData (generateMetadata (finalQueue ! i) cd (paddedIndex i))) ?z1"
    have f1: "''images/'' @ paddedIndex i @ ''.png'' \<notin> fst ` set z"
      using image_name_fresh[of i i] "1.prems"(3) by (metis order_refl set_map)
    then have z1: "?z1 = z @ [(''images/'' @ paddedIndex i @ ''.png'',
                 ImageData (processImage toPng (buffer img)))]"
      by (rule zipFile_fresh)
    have f2: "''json/'' @ paddedIndex i @ ''.json'' \<notin> fst ` set ?z1"
      using json_name_fresh[of i i] "1.prems"(3) unfolding z1 by (simp flip: set_map)
    then have "?z2 = ?z1 @ [(''json/'' @ paddedIndex i @ ''.json'',
                 JsonData (generateMetadata (finalQueue ! i) cd (paddedIndex i)))]"
      by (rule zipFile_fresh)
    then have "map fst ?z2 = map fst ?z1 @ [''json/'' @ paddedIndex i @ ''.json'']"
      by simp
    also have "map fst ?z1 = map fst z @ [''images/'' @ paddedIndex i @ ''.png'']"
      unfolding z1 by simp
    finally have names: "map fst ?z2 = archiveNames (Suc i)"
      using "1.prems"(3) by (simp add: archiveNames_Suc entryNames_def)
    from True have le: "Suc i \<le> totalSupply" by simp
    from "1.IH"[OF True len img "1.prems"(1) le names]
    obtain z' where "processLoop toPng cd finalQueue totalSupply (Suc i) ?z2 = Some z'"
      "map fst z' = archiveNames totalSupply" by blast
    with True len img show ?thesis by (subst processLoop.simps) simp
  qed
qed

lemma swap_set_length:
  "i < length xs \<Longrightarrow> j < length xs \<Longrightarrow>
   set (swap i j xs) = set xs \<and> length (swap i j xs) = length xs"
  by (simp add: swap_def)

lemma shuffleLoop_set_length:
  "i < length xs \<Longrightarrow>
   set (shuffleLoop rnd i xs) = set xs \<and> length (shuffleLoop rnd i xs) = length xs"
proof (induction i arbitrary: xs)
  case 0
  show ?case by simp
next
  case (Suc i)
  let ?j = "rnd (Suc i) mod (Suc i + 1)"
  have "?j < Suc i + 1" by (rule mod_less_divisor) simp
  then have "?j \<le> Suc i" by (simp only: Suc_eq_plus1[symmetric] less_Suc_eq_le)
  then have j: "?j < length xs" using Suc.prems by (rule le_less_trans)
  from swap_set_length[OF Suc.prems j]
  have s: "set (swap (Suc i) ?j xs) = set xs" and l: "length (swap (Suc i) ?j xs) = length xs"
    by simp_all
  from Suc.prems l have "i < length (swap (Suc i) ?j xs)" by simp
  from Suc.IH[OF this] s l show ?case by simp
qed

lemma shuffleArray_set_length:
  "set (shuffleArray rnd xs) = set xs \<and> length (shuffleArray rnd xs) = length xs"
proof (cases xs)
  case Nil
  then show ?thesis by (simp add: shuffleArray_def)
next
  case (Cons x rest)
  then have "length xs - 1 < length xs" by simp
  from shuffleLoop_set_length[OF this] show ?thesis by (simp add: shuffleArray_def)
qed

lemma expandTier_sources:
  assumes "expandTier t (q, c) = Inr (q', c')" and "\<forall>j\<in>set q. sourceImage j \<noteq> None"
  shows "\<forall>j\<in>set q'. sourceImage j \<noteq> None"
proof -
  from editions_of_expanded_tier[OF assms(1)] obtain new where
    q': "q' = q @ new" and
    new: "\<forall>j\<in>set new. \<exists>imageIndex. sourceImage j = Some (images t ! imageIndex)"
    by blast
  from new have "\<forall>j\<in>set new. sourceImage j \<noteq> None" by auto
  with assms(2) q' show ?thesis by auto
qed

lemma tierLoop_sources:
  assumes "tierLoop ts (q, c) = Inr (q', c')" and "\<forall>j\<in>set q. sourceImage j \<noteq> None"
  shows "\<forall>j\<in>set q'. sourceImage j \<noteq> None"
  using assms
proof (induction ts arbitrary: q c)
  case Nil
  then show ?case by simp
next
  case (Cons t ts)
  from Cons.prems(1) obtain q1 c1 where e: "expandTier t (q, c) = Inr (q1, c1)"
    and r: "tierLoop ts (q1, c1) = Inr (q', c')"
    by (auto split: sum.splits)
  from expandTier_sources[OF e Cons.prems(2)] have "\<forall>j\<in>set q1. sourceImage j \<noteq> None" .
  from Cons.IH[OF r this] show ?case .
qed

lemma createJobQueue_sources:
  assumes "createJobQueue rarityTiers totalSupply = Inr jobQueue"
  shows "\<forall>j\<in>set jobQueue. sourceImage j \<noteq> None"
proof -
  from assms obtain c where "tierLoop rarityTiers ([], 0) = Inr (jobQueue, c)"
    by (auto simp: createJobQueue_def split: sum.splits prod.splits)
  from tierLoop_sources[OF this] show ?thesis by simp
qed

lemma generate_sends_archive:
  assumes "\<forall>t\<in>set (processedTiers rarityTiers uploadedFiles).
             \<not> js_less (length (images t)) (imagesNeeded t)"
    and "sum_list (map nftCount (processedTiers rarityTiers uploadedFiles)) = totalSupply"
    and "uploadedFiles \<noteq> []"
  shows "\<exists>z. generate rnd toPng cd rarityTiers totalSupply randomizeOrder uploadedFiles
               = SendZip (sanitize (projectName cd) @ ''_collection.zip'') z
           \<and> map fst z = archiveNames totalSupply"
proof -
  from tierLoop_ok[OF assms(1), of "[]" 0] assms(2) obtain jobQueue where
    q: "createJobQueue (processedTiers rarityTiers uploadedFiles) totalSupply = Inr jobQueue"
    and len: "length jobQueue = totalSupply"
    by (auto simp: createJobQueue_def)
  let ?fq = "if randomizeOrder then shuffleArray rnd jobQueue else jobQueue"
  from createJobQueue_sources[OF q] have src: "\<forall>j\<in>set jobQueue. sourceImage j \<noteq> None" .
  have fq: "set ?fq = set jobQueue \<and> length ?fq = totalSupply"
    using shuffleArray_set_length[of rnd jobQueue] len by simp
  have ok: "\<forall>k<totalSupply. k < length ?fq \<and> sourceImage (?fq ! k) \<noteq> None"
  proof (intro allI impI)
    fix k assume "k < totalSupply"
    with fq have k: "k < length ?fq" by simp
    then have "?fq ! k \<in> set ?fq" by (rule nth_mem)
    with fq src have "sourceImage (?fq ! k) \<noteq> None" by blast
    with k show "k < length ?fq \<and> sourceImage (?fq ! k) \<noteq> None" by simp
  qed
  have "map fst [(''images/'', Folder), (''json/'', Folder)] = archiveNames 0"
    by (simp add: archiveNames_def)
  from processLoop_names[OF ok _ this, of toPng cd] obtain z where
    "processLoop toPng cd ?fq totalSupply 0 [(''images/'', Folder), (''json/'', Folder)] = Some z"
    "map fst z = archiveNames totalSupply" by auto
  with q len assms(3) show ?thesis by (simp add: generate_def)
qed

text \<open>
  C1. When no tier trips the capacity guard, that is, every tier's image list has at
  least \<open>ceil(nftCount / editionsPerImage)\<close> entries, and the tiers' \<open>nftCount\<close>s add up
  to the declared total supply, \<open>createJobQueue\<close> returns exactly \<open>totalSupply\<close> job
  seeds and their \<open>globalIndex\<close> values, read in queue order, are
  \<open>0, 1, ..., totalSupply - 1\<close>: increasing across the whole plan, no gap, no duplicate.
  The request handler then passes its length test and sends the archive, whose paths are
  numbered \<open>0\<close> to \<open>totalSupply - 1\<close>.
\<close>

theorem createJobQueue_supply:
  assumes "\<forall>t\<in>set rarityTiers. \<not> js_less (length (images t)) (imagesNeeded t)"
    and "sum_list (map nftCount rarityTiers) = totalSupply"
  shows "(\<exists>jobQueue. createJobQueue rarityTiers totalSupply = Inr jobQueue
           \<and> length jobQueue = totalSupply
           \<and> map globalIndex jobQueue = [0..<totalSupply])
       \<and> (\<forall>rnd toPng cd raw randomizeOrder uploadedFiles.
             processedTiers raw uploadedFiles = rarityTiers \<and> uploadedFiles \<noteq> [] \<longrightarrow>
             (\<exists>z. generate rnd toPng cd raw totalSupply randomizeOrder uploadedFiles
                     = SendZip (sanitize (projectName cd) @ ''_collection.zip'') z
                 \<and> map fst z = archiveNames totalSupply))"
proof
  from tierLoop_ok[OF assms(1), of "[]" 0] obtain new where
    "tierLoop rarityTiers ([], 0) = Inr (new, length new)"
    "length new = sum_list (map nftCount rarityTiers)"
    "map globalIndex new = [0..<length new]" by auto
  with assms(2) show "\<exists>jobQueue. createJobQueue rarityTiers totalSupply = Inr jobQueue
           \<and> length jobQueue = totalSupply
           \<and> map globalIndex jobQueue = [0..<totalSupply]"
    by (simp add: createJobQueue_def)
  show "\<forall>rnd toPng cd raw randomizeOrder uploadedFiles.
             processedTiers raw uploadedFiles = rarityTiers \<and> uploadedFiles \<noteq> [] \<longrightarrow>
             (\<exists>z. generate rnd toPng cd raw totalSupply randomizeOrder uploadedFiles
                     = SendZip (sanitize (projectName cd) @ ''_collection.zip'') z
                 \<and> map fst z = archiveNames totalSupply)"
    using assms generate_sends_archive by blast
qed

lemma examplePlan_upload:
  "processedTiers (map (\<lambda>t. t\<lparr>images := []\<rparr>) examplePlan) (concat (map images examplePlan))
     = examplePlan"
  by code_simp

theorem createJobQueue_supply_witness:
  "list_all (\<lambda>t. \<not> js_less (length (images t)) (imagesNeeded t)) examplePlan
   \<and> sum_list (map nftCount examplePlan) = 6
   \<and> (\<exists>jobQueue. createJobQueue examplePlan 6 = Inr jobQueue
          \<and> length jobQueue = 6 \<and> map globalIndex jobQueue = [0..<6])
   \<and> (\<exists>z. generate (\<lambda>i. 0) (\<lambda>b. Some b)
              \<lparr>projectName = ''Fox Club'', symbol = ''FOX'', description = ''Foxes''\<rparr>
              (map (\<lambda>t. t\<lparr>images := []\<rparr>) examplePlan) 6 True (concat (map images examplePlan))
            = SendZip ''Fox_Club_collection.zip'' z
        \<and> map fst z = archiveNames 6)"
proof -
  let ?cd = "\<lparr>projectName = ''Fox Club'', symbol = ''FOX'', description = ''Foxes''\<rparr>"
  have ok: "\<forall>t\<in>set examplePlan. \<not> js_less (length (images t)) (imagesNeeded t)"
    by (simp add: examplePlan_def imagesNeeded_def ceil_div_def)
  have total: "sum_list (map nftCount examplePlan) = 6" by (simp add: examplePlan_def)
  have files: "concat (map images examplePlan) \<noteq> []" by (simp add: examplePlan_def)
  have name: "sanitize (projectName ?cd) @ ''_collection.zip'' = ''Fox_Club_collection.zip''"
    by (simp add: sanitize_def)
  from createJobQueue_supply[OF ok total]
  have q: "\<exists>jobQueue. createJobQueue examplePlan 6 = Inr jobQueue
          \<and> length jobQueue = 6 \<and> map globalIndex jobQueue = [0..<6]"
    and h: "\<And>rnd toPng cd raw randomizeOrder uploadedFiles.
             processedTiers raw uploadedFiles = examplePlan \<Longrightarrow> uploadedFiles \<noteq> [] \<Longrightarrow>
             (\<exists>z. generate rnd toPng cd raw 6 randomizeOrder uploadedFiles
                     = SendZip (sanitize (projectName cd) @ ''_collection.zip'') z
                 \<and> map fst z = archiveNames 6)"
    by blast+
  from h[OF examplePlan_upload files, of "\<lambda>i. 0" "\<lambda>b. Some b" ?cd True]
  have g: "\<exists>z. generate (\<lambda>i. 0) (\<lambda>b. Some b) ?cd
              (map (\<lambda>t. t\<lparr>images := []\<rparr>) examplePlan) 6 True (concat (map images examplePlan))
            = SendZip ''Fox_Club_collection.zip'' z
        \<and> map fst z = archiveNames 6"
    unfolding name .
  from ok have "list_all (\<lambda>t. \<not> js_less (length (images t)) (imagesNeeded t)) examplePlan"
    by (simp add: list_all_iff)
  with total q g show ?thesis by (intro conjI)
qed

text \<open>
  C9 (amended). The padded index of \<open>i\<close> is \<open>String(i).padStart(5, '0')\<close>: its width is
  \<open>max(5, digits of i)\<close>, which is 5 for every index below 100000 (so for every item of a
  collection of at most 100000 items), while an index from 100000 on is written with its
  own digits, unpadded and wider than 5. Different indices never get the same padded
  index. The AI studio names an item by its raw edition number, without padding.
\<close>

theorem paddedIndex_width:
  "length (paddedIndex i) = max 5 (length (string_of_nat i))
   \<and> (i < 100000 \<longrightarrow> length (paddedIndex i) = 5)
   \<and> (100000 \<le> i \<longrightarrow> paddedIndex i = string_of_nat i \<and> 5 < length (paddedIndex i))
   \<and> (paddedIndex i = paddedIndex j \<longrightarrow> i = j)
   \<and> nftName c job = col_name c @ '' #'' @ string_of_nat (edition_in_drop job)"
proof -
  have a: "length (string_of_nat i) \<le> 5" if "i < 100000"
    using length_string_of_nat_le[of 5 i] that by simp
  have b: "5 < length (string_of_nat i)" if "100000 \<le> i"
    using length_string_of_nat_gt[of 5 i] that by simp
  show ?thesis
    using a b paddedIndex_inj[of i j]
    by (auto simp: length_paddedIndex paddedIndex_def padStart_def nftName_def)
qed

lemma six_digits: "100000 \<le> n \<Longrightarrow> n < 1000000 \<Longrightarrow> length (string_of_nat n) = 6"
  using length_string_of_nat_le[of 6 n] length_string_of_nat_gt[of 5 n] by simp

lemma digits_1: "string_of_nat (Suc 0) = ''1''"
  by code_simp

text \<open>
  C9, as stated, fails: with a total supply of 100001 the width \<open>max(5, digits of totalSupply)\<close> would be 6,
  but index 0 is written with 5 characters and index 100000 with 6; the AI studio writes
  edition 1 as \<open>1\<close>.
\<close>

theorem paddedIndex_width_counterexample:
  "length (paddedIndex 0) = 5 \<and> length (paddedIndex 100000) = 6
   \<and> max 5 (length (string_of_nat 100001)) = 6
   \<and> nftName sampleCollection (sampleJob ''j1'' 1 Approved) = ''Fox Club #1''"
  using six_digits[of 100000] six_digits[of 100001] length_string_of_nat_le[of 1 0]
  by (simp add: length_paddedIndex nftName_def sampleCollection_def sampleJob_def digits_1)

theorem expandTier_editions_witness:
  "\<exists>q' c'. expandTier exampleTier ([], 0) = Inr (q', c')
     \<and> map (\<lambda>j. (artId j, editionNumber j, editionTotal j)) q'
         = [(''ltd-1'', 1, 3), (''ltd-1'', 2, 3), (''ltd-1'', 3, 3),
            (''ltd-2'', 1, 3), (''ltd-2'', 2, 3), (''ltd-2'', 3, 3),
            (''ltd-3'', 1, 1)]
     \<and> list_all (\<lambda>j. 1 \<le> editionNumber j \<and> editionNumber j \<le> 3
            \<and> length (filter (\<lambda>j'. artId j' = artId j) q') = editionTotal j) q'"
proof -
  obtain q' c' where run: "imageLoop exampleTier 3 0 ([], 0) = (q', c')"
    by (cases "imageLoop exampleTier 3 0 ([], 0)")
  with exampleTier_expand have ex: "expandTier exampleTier ([], 0) = Inr (q', c')" by simp
  from exampleTier_run run have m: "map (\<lambda>j. (artId j, editionNumber j, editionTotal j)) q'
         = [(''ltd-1'', 1, 3), (''ltd-1'', 2, 3), (''ltd-1'', 3, 3),
            (''ltd-2'', 1, 3), (''ltd-2'', 2, 3), (''ltd-2'', 3, 3),
            (''ltd-3'', 1, 1)]" by simp
  from expandTier_editions[OF ex, THEN conjunct1] have
    "\<forall>j\<in>set q'. 1 \<le> editionNumber j \<and> editionNumber j \<le> editionsPerImage exampleTier
        \<and> length (filter (\<lambda>j'. artId j' = artId j) q') = editionTotal j"
    by fastforce
  then have "list_all (\<lambda>j. 1 \<le> editionNumber j \<and> editionNumber j \<le> 3
            \<and> length (filter (\<lambda>j'. artId j' = artId j) q') = editionTotal j) q'"
    by (simp add: list_all_iff exampleTier_def)
  with ex m show ?thesis by (intro exI[of _ q'] exI[of _ c'] conjI)
qed

theorem paddedIndex_width_witness:
  "length (paddedIndex 42) = 5 \<and> paddedIndex 100000 = string_of_nat 100000
   \<and> 5 < length (paddedIndex 100000) \<and> paddedIndex 42 = paddedIndex (40 + 2)"
proof -
  have "(42::nat) < 100000" "(100000::nat) \<le> 100000" "paddedIndex 42 = paddedIndex (40 + 2)"
    by simp_all
  with paddedIndex_width[of 42 "40 + 2"] paddedIndex_width[of 100000] show ?thesis by blast
qed


section \<open>Properties of the AI studio\<close>

subsection \<open>The in-flight flag\<close>

lemma tryCatch_release_Inl:
  "tryCatch m release_and_rethrow w = (Inl e, w') \<Longrightarrow> \<not> isProcessing w'"
  by (auto simp: tryCatch_def release_and_rethrow_def split: prod.splits sum.splits)

lemma initialRest_Inr: "initialRest env c w = (Inr r, w') \<Longrightarrow> \<not> isProcessing w'"
  by (auto simp: initialRest_def await_def throw_def finish_def
      split: prod.splits sum.splits if_splits)

lemma continueRest_Inr: "continueRest env c w = (Inr r, w') \<Longrightarrow> \<not> isProcessing w'"
  by (auto simp: continueRest_def await_def finish_def
      split: prod.splits sum.splits if_splits)

lemma tryCatch_Inr:
  "tryCatch m release_and_rethrow w = (Inr r, w') \<Longrightarrow> m w = (Inr r, w')"
  by (auto simp: tryCatch_def release_and_rethrow_def split: prod.splits sum.splits)

lemma resume_released: "\<not> isProcessing (snd (resume env kind c w))"
proof (cases "resume env kind c w")
  case (Pair r w')
  show ?thesis
  proof (cases r)
    case (Inl e)
    with Pair show ?thesis unfolding resume_def by (auto dest: tryCatch_release_Inl)
  next
    case (Inr js)
    with Pair have "(case kind of Initial \<Rightarrow> initialRest env c | Continue \<Rightarrow> continueRest env c) w
        = (Inr js, w')"
      unfolding resume_def by (auto dest: tryCatch_Inr)
    then show ?thesis using Pair
      by (cases kind) (auto dest: initialRest_Inr continueRest_Inr)
  qed
qed

lemma invoke_split:
  "invoke env kind c w =
     (case start w of (Inl e, w') \<Rightarrow> (Inl e, w') | (Inr u, w') \<Rightarrow> resume env kind c w')"
  by (cases kind)
     (auto simp: invoke_def processInitialBatch_def continueBatchProcessing_def start_def
        resume_def tryCatch_def await_def acquire_def release_and_rethrow_def
        split: prod.splits sum.splits)

lemma start_rejected:
  "isProcessing w \<Longrightarrow>
   start w = (Inl (Thrown ''Job processing already in progress''), w\<lparr>isProcessing := False\<rparr>)"
  by (simp add: start_def tryCatch_def acquire_def release_and_rethrow_def)

lemma start_accepted:
  "\<not> isProcessing w \<Longrightarrow> start w = (Inr (), w\<lparr>isProcessing := True\<rparr>)"
  by (simp add: start_def tryCatch_def acquire_def)

text \<open>
  C10. Whatever the state, the environment and the collection, when
  \<open>processInitialBatch\<close> or \<open>continueBatchProcessing\<close> has ended, by returning or by
  throwing (lock contention, no pending jobs, a rejected database statement, anything
  else), \<open>isProcessing\<close> is false. The same holds among concurrent calls: right after a
  call is rejected at the lock test, and right after a suspended call has run to its end,
  the flag is false.
\<close>

theorem isProcessing_released:
  "\<not> isProcessing (snd (processInitialBatch env collectionId w))
   \<and> \<not> isProcessing (snd (continueBatchProcessing env collectionId w))
   \<and> (isProcessing (shared s) \<longrightarrow>
        \<not> isProcessing (shared (step env s (Invoke kind collectionId))))
   \<and> (k < length (inFlight s) \<longrightarrow> \<not> isProcessing (shared (step env s (Resume k))))"
proof -
  have "\<not> isProcessing (snd (invoke env kind collectionId w))" for kind
  proof (cases "isProcessing w")
    case True
    then show ?thesis by (simp add: invoke_split start_rejected)
  next
    case False
    then show ?thesis by (simp add: invoke_split start_accepted resume_released)
  qed
  from this[of Initial] this[of Continue]
  have a: "\<not> isProcessing (snd (processInitialBatch env collectionId w))"
    and b: "\<not> isProcessing (snd (continueBatchProcessing env collectionId w))"
    by (simp_all add: invoke_def)
  have c: "\<not> isProcessing (shared (step env s (Invoke kind collectionId)))"
    if "isProcessing (shared s)"
    using that by (simp add: start_rejected)
  have d: "\<not> isProcessing (shared (step env s (Resume k)))" if "k < length (inFlight s)"
  proof -
    obtain kd c where kc: "inFlight s ! k = (kd, c)" by (cases "inFlight s ! k")
    obtain r w' where r: "resume env kd c (shared s) = (r, w')"
      by (cases "resume env kd c (shared s)")
    from resume_released[of env kd c "shared s"] r have "\<not> isProcessing w'" by simp
    with that kc r show ?thesis by simp
  qed
  from a b c d show ?thesis by blast
qed

lemma dbStmt_ok:
  "dbFails env (dbCalls w) = None \<Longrightarrow>
   dbStmt env q w = (case q (w\<lparr>dbCalls := Suc (dbCalls w)\<rparr>) of (r, w2) \<Rightarrow> (Inr r, w2))"
  by (simp add: dbStmt_def)

lemma dbStmt_fails:
  "dbFails env (dbCalls w) = Some m \<Longrightarrow>
   dbStmt env q w = (Inl (Thrown m), w\<lparr>dbCalls := Suc (dbCalls w)\<rparr>)"
  by (simp add: dbStmt_def)

lemma find_jobs_ok:
  "dbFails env (dbCalls w) = None \<Longrightarrow>
   Job_findByCollectionId env c st limit w =
     (Inr (selectJobs c st limit (jobs w)), w\<lparr>dbCalls := Suc (dbCalls w)\<rparr>)"
  by (simp add: Job_findByCollectionId_def dbStmt_ok)

lemma selectJobs_empty:
  "\<forall>j\<in>set js. collection_id j = c \<longrightarrow> status j \<noteq> s \<Longrightarrow> selectJobs c (Some s) limit js = []"
proof -
  assume "\<forall>j\<in>set js. collection_id j = c \<longrightarrow> status j \<noteq> s"
  then have "filter (\<lambda>j. collection_id j = c \<and> status j = s) js = []"
    by (auto simp: filter_empty_conv)
  then show ?thesis by (simp add: selectJobs_def)
qed

text \<open>
  C5 (amended). With the lock free, the fetch succeeding and no pending job in the
  collection, the continuation batch returns the empty list, and the initial batch throws
  \<open>No pending jobs found\<close>; both leave the jobs untouched and the lock free.
\<close>

theorem no_pending_jobs:
  assumes "dbFails env (dbCalls w) = None"
    and "\<not> isProcessing w"
    and "\<forall>j\<in>set (jobs w). collection_id j = collectionId \<longrightarrow> status j \<noteq> Pending"
  shows "continueBatchProcessing env collectionId w =
           (Inr [], w\<lparr>dbCalls := Suc (dbCalls w)\<rparr>)
       \<and> processInitialBatch env collectionId w =
           (Inl (Thrown ''No pending jobs found''), w\<lparr>dbCalls := Suc (dbCalls w)\<rparr>)"
proof -
  let ?w1 = "w\<lparr>isProcessing := True\<rparr>"
  from assms(1) have db: "dbFails env (dbCalls ?w1) = None" by simp
  from assms(3) have none: "selectJobs collectionId (Some Pending) n (jobs w) = []" for n
    by (simp add: selectJobs_empty)
  have w: "w\<lparr>isProcessing := False, dbCalls := n\<rparr> = w\<lparr>dbCalls := n\<rparr>"
    "w\<lparr>dbCalls := n, isProcessing := False\<rparr> = w\<lparr>dbCalls := n\<rparr>" for n
    using assms(2) by (cases w; simp)+
  have a: "acquire w = (Inr (), ?w1)" using assms(2) by (simp add: acquire_def)
  have "continueBatchProcessing env collectionId w = (Inr [], w\<lparr>dbCalls := Suc (dbCalls w)\<rparr>)"
    using assms(2)
    by (simp add: continueBatchProcessing_def continueRest_def tryCatch_def await_def a
        find_jobs_ok[OF db] none finish_def w)

  moreover
  have "processInitialBatch env collectionId w =
          (Inl (Thrown ''No pending jobs found''), w\<lparr>dbCalls := Suc (dbCalls w)\<rparr>)"
    using assms(2)
    by (simp add: processInitialBatch_def initialRest_def tryCatch_def await_def a
        find_jobs_ok[OF db] none throw_def release_and_rethrow_def w)

  ultimately show ?thesis by simp
qed

lemmas async_defs = return_def throw_def await_def tryCatch_def dbStmt_def acquire_def
  release_and_rethrow_def finish_def

lemmas store_defs = Job_findById_def Job_findByCollectionId_def selectJobs_def Job_updateStatus_def
  Job_incrementRetryCount_def Collection_findById_def updateWhere_def applyUpdate_def noData_def

lemmas sample_defs = sampleEnv_def steadyEnv_def sampleJob_def sampleWorld_def sampleCollection_def

theorem no_pending_jobs_witness:
  "\<not> isProcessing (sampleWorld [sampleJob ''j1'' 1 Approved])
   \<and> fst (continueBatchProcessing steadyEnv ''col''
            (sampleWorld [sampleJob ''j1'' 1 Approved])) = Inr []
   \<and> fst (processInitialBatch steadyEnv ''col''
            (sampleWorld [sampleJob ''j1'' 1 Approved])) = Inl (Thrown ''No pending jobs found'')"
  using no_pending_jobs[of "steadyEnv" "sampleWorld [sampleJob ''j1'' 1 Approved]" "''col''"]
  by (simp add: sample_defs)

text \<open>
  C5, as stated, fails: the initial batch on a collection without pending jobs ends with
  an error, not with an empty result.
\<close>

theorem initial_batch_no_pending_counterexample:
  "fst (processInitialBatch steadyEnv ''col'' (sampleWorld []))
     = Inl (Thrown ''No pending jobs found'')"
  by (simp add: processInitialBatch_def initialRest_def async_defs store_defs sample_defs)

text \<open>
  C3. A first batch is started and suspended at its fetch; a second start is rejected,
  and its \<open>catch\<close> clears the flag the first batch had set; a third start, still before
  the first batch has run on, is therefore admitted: two batches are in flight.
\<close>

theorem third_batch_admitted:
  "inFlight (run steadyEnv (idle [sampleJob ''j1'' 1 Pending])
       [Invoke Initial ''col'', Invoke Continue ''col'', Invoke Continue ''col''])
     = [(Initial, ''col''), (Continue, ''col'')]
   \<and> outcomes (run steadyEnv (idle [sampleJob ''j1'' 1 Pending])
       [Invoke Initial ''col'', Invoke Continue ''col'', Invoke Continue ''col''])
     = [Inl (Thrown ''Job processing already in progress'')]"
  by (simp add: run_def idle_def start_def async_defs sample_defs)

theorem isProcessing_released_witness:
  "processInitialBatch steadyEnv ''col''
       ((sampleWorld [sampleJob ''j1'' 1 Pending])\<lparr>isProcessing := True\<rparr>)
     = (Inl (Thrown ''Job processing already in progress''), sampleWorld [sampleJob ''j1'' 1 Pending])
   \<and> fst (processInitialBatch steadyEnv ''col'' (sampleWorld []))
       = Inl (Thrown ''No pending jobs found'')
   \<and> fst (continueBatchProcessing (steadyEnv\<lparr>dbFails := (\<lambda>n. Some ''SQLITE_BUSY'')\<rparr>)
            ''col'' (sampleWorld [sampleJob ''j1'' 1 Pending]))
       = Inl (Thrown ''SQLITE_BUSY'')
   \<and> \<not> isProcessing (snd (processInitialBatch steadyEnv ''col'' (sampleWorld [])))
   \<and> \<not> isProcessing (snd (continueBatchProcessing
          (steadyEnv\<lparr>dbFails := (\<lambda>n. Some ''SQLITE_BUSY'')\<rparr>)
            ''col'' (sampleWorld [sampleJob ''j1'' 1 Pending])))
   \<and> isProcessing (shared (step steadyEnv
          (idle [sampleJob ''j1'' 1 Pending]) (Invoke Initial ''col'')))
   \<and> \<not> isProcessing (shared (step steadyEnv
          (step steadyEnv (idle [sampleJob ''j1'' 1 Pending])
             (Invoke Initial ''col''))
          (Invoke Continue ''col'')))
   \<and> \<not> isProcessing (shared (step steadyEnv
          (step steadyEnv (idle [sampleJob ''j1'' 1 Pending])
             (Invoke Initial ''col''))
          (Resume 0)))"
proof -
  let ?env = "steadyEnv"
  let ?s1 = "step ?env (idle [sampleJob ''j1'' 1 Pending]) (Invoke Initial ''col'')"
  have a: "processInitialBatch ?env ''col''
       ((sampleWorld [sampleJob ''j1'' 1 Pending])\<lparr>isProcessing := True\<rparr>)
     = (Inl (Thrown ''Job processing already in progress''), sampleWorld [sampleJob ''j1'' 1 Pending])"
    by (simp add: processInitialBatch_def async_defs sample_defs)
  have b: "fst (processInitialBatch ?env ''col'' (sampleWorld []))
       = Inl (Thrown ''No pending jobs found'')"
    by (simp add: processInitialBatch_def initialRest_def async_defs store_defs sample_defs)
  have c: "fst (continueBatchProcessing (?env\<lparr>dbFails := (\<lambda>n. Some ''SQLITE_BUSY'')\<rparr>)
            ''col'' (sampleWorld [sampleJob ''j1'' 1 Pending]))
       = Inl (Thrown ''SQLITE_BUSY'')"
    by (simp add: continueBatchProcessing_def continueRest_def async_defs store_defs sample_defs)
  have held: "isProcessing (shared ?s1)" and one: "0 < length (inFlight ?s1)"
    by (simp_all add: idle_def start_def async_defs sample_defs)
  from a b c held one
    isProcessing_released[of ?env "''col''" "sampleWorld []" ?s1 Continue 0]
    isProcessing_released[of "?env\<lparr>dbFails := (\<lambda>n. Some ''SQLITE_BUSY'')\<rparr>"
      "''col''" "sampleWorld [sampleJob ''j1'' 1 Pending]" ?s1 Continue 0]
  show ?thesis by blast
qed

lemma find_Some_id: "find (\<lambda>j. job_id j = i) js = Some job \<Longrightarrow> job_id job = i"
  by (auto simp: find_Some_iff)

lemma find_job_ok:
  "dbFails env (dbCalls w) = None \<Longrightarrow>
   Job_findById env i w = (Inr (find (\<lambda>j. job_id j = i) (jobs w)), w\<lparr>dbCalls := Suc (dbCalls w)\<rparr>)"
  by (simp add: Job_findById_def dbStmt_ok)

lemma updateStatus_ok:
  "dbFails env (dbCalls w) = None \<Longrightarrow>
   Job_updateStatus env i s d w =
     (Inr (\<exists>j\<in>set (jobs w). job_id j = i),
      w\<lparr>dbCalls := Suc (dbCalls w),
        jobs := map (\<lambda>j. if job_id j = i then applyUpdate s d j else j) (jobs w)\<rparr>)"
  by (simp add: Job_updateStatus_def dbStmt_ok updateWhere_def)

lemma incrementRetryCount_ok:
  "dbFails env (dbCalls w) = None \<Longrightarrow>
   Job_incrementRetryCount env i w =
     (Inr (\<exists>j\<in>set (jobs w). job_id j = i),
      w\<lparr>dbCalls := Suc (dbCalls w),
        jobs := map (\<lambda>j. if job_id j = i then j\<lparr>retry_count := retry_count j + 1\<rparr> else j) (jobs w)\<rparr>)"
  by (simp add: Job_incrementRetryCount_def dbStmt_ok updateWhere_def)

lemma regenerateReset_ok:
  assumes db: "\<forall>n. dbFails env n = None"
    and found: "find (\<lambda>j. job_id j = jobId) (jobs w) = Some job"
  shows "regenerateReset env jobId w =
     (Inr job,
      w\<lparr>dbCalls := dbCalls w + 2,
        files := (case truthy_path (image_path job) w of
                    None \<Rightarrow> files w | Some p \<Rightarrow> (files w)(p := None)),
        jobs := map (\<lambda>j. if job_id j = jobId then resetRow j else j) (jobs w)\<rparr>)"
proof -
  have tp: "truthy_path p (w\<lparr>dbCalls := n\<rparr>) = truthy_path p w" for p n
    by (simp add: truthy_path_def split: option.split)
  have row: "applyUpdate Pending \<lparr>set_image_path = Some None, set_metadata_path = Some None,
      set_error_message = Some None\<rparr> = resetRow"
    by (rule ext) (simp add: applyUpdate_def resetRow_def)
  show ?thesis
    using db found
    by (cases "truthy_path (image_path job) w")
       (simp_all add: regenerateReset_def await_def return_def find_job_ok updateStatus_ok
          unlinkIfExists_def tp row)
qed

lemma processJob_success:
  assumes db: "\<forall>n. dbFails env n = None"
    and api: "stability env (apiCalls w) (ai_prompt job) = Inr imageData"
  shows "processJob env job w =
     (Inr (),
      w\<lparr>dbCalls := dbCalls w + 2, apiCalls := Suc (apiCalls w),
        files := (files w)(path_join (uploadsDir env) (job_id job @ ''.png'') \<mapsto> Bytes imageData),
        jobs := map (\<lambda>j. if job_id j = job_id job
                           then j\<lparr>status := Generated,
                                  image_path := Some (path_join (uploadsDir env) (job_id job @ ''.png''))\<rparr>
                           else j) (jobs w)\<rparr>)"
  using db api
  by (simp add: processJob_def await_def return_def updateStatus_ok generateImage_def Let_def
      applyUpdate_def noData_def comp_def if_distrib[of "\<lambda>j. applyUpdate _ _ j"] cong: if_cong)

lemma processJob_failure:
  assumes db: "\<forall>n. dbFails env n = None"
    and api: "stability env (apiCalls w) (ai_prompt job) = Inl m"
  shows "processJob env job w =
     (Inl (Thrown (''Failed to generate image: '' @ m)),
      w\<lparr>dbCalls := dbCalls w + 1, apiCalls := Suc (apiCalls w),
        jobs := map (\<lambda>j. if job_id j = job_id job then j\<lparr>status := Generating\<rparr> else j) (jobs w)\<rparr>)"
  using db api
  by (simp add: processJob_def await_def return_def updateStatus_ok generateImage_def Let_def
      applyUpdate_def noData_def)

lemma regenerateJob_success:
  assumes db: "\<forall>n. dbFails env n = None"
    and found: "find (\<lambda>j. job_id j = jobId) (jobs w) = Some job"
    and api: "stability env (apiCalls w) (ai_prompt job) = Inr imageData"
  shows "\<exists>w2. regenerateJob env jobId w = (Inr True, w2)
           \<and> jobs w2 = map (\<lambda>j. if job_id j = jobId then regeneratedRow env j else j) (jobs w)
           \<and> files w2 (path_join (uploadsDir env) (jobId @ ''.png'')) = Some (Bytes imageData)"
proof -
  from found have i: "job_id job = jobId" by (rule find_Some_id)
  let ?w1 = "w\<lparr>dbCalls := dbCalls w + 2,
        files := (case truthy_path (image_path job) w of
                    None \<Rightarrow> files w | Some p \<Rightarrow> (files w)(p := None)),
        jobs := map (\<lambda>j. if job_id j = jobId then resetRow j else j) (jobs w)\<rparr>"
  have r: "regenerateReset env jobId w = (Inr job, ?w1)"
    using db found by (rule regenerateReset_ok)
  have api1: "stability env (apiCalls ?w1) (ai_prompt job) = Inr imageData"
    using api by simp
  let ?w2 = "?w1\<lparr>dbCalls := dbCalls ?w1 + 2, apiCalls := Suc (apiCalls ?w1),
        files := (files ?w1)(path_join (uploadsDir env) (job_id job @ ''.png'') \<mapsto> Bytes imageData),
        jobs := map (\<lambda>j. if job_id j = job_id job
                           then j\<lparr>status := Generated,
                                  image_path := Some (path_join (uploadsDir env) (job_id job @ ''.png''))\<rparr>
                           else j) (jobs ?w1)\<rparr>"
  have p: "processJob env job ?w1 = (Inr (), ?w2)"
    using db api1 by (rule processJob_success)
  have run: "regenerateJob env jobId w = (Inr True, ?w2)"
    by (simp only: regenerateJob_def await_def r p prod.case sum.case return_def)
  have rows: "jobs ?w2 = map (\<lambda>j. if job_id j = jobId then regeneratedRow env j else j) (jobs w)"
    by (auto simp: i resetRow_def regeneratedRow_def)
  have fl: "files ?w2 (path_join (uploadsDir env) (jobId @ ''.png'')) = Some (Bytes imageData)"
    by (simp add: i)
  from run rows fl show ?thesis by blast
qed

text \<open>
  C6 (amended). For a job in status generated or error, with the database answering:
  the reset part of \<open>regenerateJob\<close> puts its row back to pending with image path,
  metadata path and error message cleared, and the old image file is gone; the operation
  then processes the job at once, so that when the image API succeeds it ends with the
  row in status generated, pointing at the new image file, metadata path and error message
  still cleared, and the route answers 200. Nothing in this depends on which of the two
  statuses the job started from.
\<close>

theorem regenerate_resets_then_processes:
  assumes db: "\<forall>n. dbFails env n = None"
    and found: "find (\<lambda>j. job_id j = jobId) (jobs w) = Some job"
    and st: "status job = Generated \<or> status job = Error"
  shows "\<exists>w1. regenerateReset env jobId w = (Inr job, w1)
           \<and> jobs w1 = map (\<lambda>j. if job_id j = jobId then resetRow j else j) (jobs w)
           \<and> (\<forall>p. image_path job = Some p \<and> p \<noteq> [] \<longrightarrow> files w1 p = None)
           \<and> (\<forall>imageData. stability env (apiCalls w) (ai_prompt job) = Inr imageData \<longrightarrow>
                (\<exists>w2. regenerateJob env jobId w = (Inr True, w2)
                    \<and> jobs w2 = map (\<lambda>j. if job_id j = jobId then regeneratedRow env j else j) (jobs w)
                    \<and> files w2 (path_join (uploadsDir env) (jobId @ ''.png'')) = Some (Bytes imageData)
                    \<and> fst (regenerateRoute env jobId w) = 200))"
proof -
  let ?w1 = "w\<lparr>dbCalls := dbCalls w + 2,
        files := (case truthy_path (image_path job) w of
                    None \<Rightarrow> files w | Some p \<Rightarrow> (files w)(p := None)),
        jobs := map (\<lambda>j. if job_id j = jobId then resetRow j else j) (jobs w)\<rparr>"
  have r: "regenerateReset env jobId w = (Inr job, ?w1)"
    using db found by (rule regenerateReset_ok)
  have del: "files ?w1 p = None" if "image_path job = Some p" "p \<noteq> []" for p
    using that by (auto simp: truthy_path_def domIff)
  have fin: "\<exists>w2. regenerateJob env jobId w = (Inr True, w2)
                    \<and> jobs w2 = map (\<lambda>j. if job_id j = jobId then regeneratedRow env j else j) (jobs w)
                    \<and> files w2 (path_join (uploadsDir env) (jobId @ ''.png'')) = Some (Bytes imageData)
                    \<and> fst (regenerateRoute env jobId w) = 200"
    if api: "stability env (apiCalls w) (ai_prompt job) = Inr imageData" for imageData
  proof -
    from regenerateJob_success[OF db found api] obtain w2 where
      w2: "regenerateJob env jobId w = (Inr True, w2)"
        "jobs w2 = map (\<lambda>j. if job_id j = jobId then regeneratedRow env j else j) (jobs w)"
        "files w2 (path_join (uploadsDir env) (jobId @ ''.png'')) = Some (Bytes imageData)"
      by blast
    let ?w0 = "w\<lparr>dbCalls := Suc (dbCalls w)\<rparr>"
    have "find (\<lambda>j. job_id j = jobId) (jobs ?w0) = Some job" using found by simp
    moreover have "stability env (apiCalls ?w0) (ai_prompt job) = Inr imageData" using api by simp
    ultimately obtain w3 where "regenerateJob env jobId ?w0 = (Inr True, w3)"
      using regenerateJob_success[OF db] by blast
    then have "fst (regenerateRoute env jobId w) = 200"
      using db found st by (auto simp: regenerateRoute_def find_job_ok)
    with w2 show ?thesis by blast
  qed
  from r del fin show ?thesis by (intro exI[of _ ?w1]) simp
qed

text \<open>
  C6, as stated, fails: after \<open>regenerateJob\<close> on a generated job the row is not pending
  and its image path is set again.
\<close>

theorem regenerate_not_pending_counterexample:
  "map status (jobs (snd (regenerateJob steadyEnv ''j1'' (staleWorld Generated)))) = [Generated]
   \<and> map image_path (jobs (snd (regenerateJob steadyEnv ''j1'' (staleWorld Generated))))
       = [Some ''uploads/j1.png'']
   \<and> files (snd (regenerateJob steadyEnv ''j1'' (staleWorld Generated))) ''uploads/j1.png''
       = Some (Bytes ''png'')"
  by (simp add: regenerateJob_def regenerateReset_def processJob_def generateImage_def
      unlinkIfExists_def truthy_path_def path_join_def Let_def
      async_defs store_defs sample_defs staleWorld_def staleJob_def)

theorem regenerate_resets_then_processes_witness:
  "find (\<lambda>j. job_id j = ''j1'') (jobs (staleWorld Error)) = Some (staleJob Error)
   \<and> status (staleJob Error) = Error
   \<and> (\<exists>w1. fst (regenerateReset steadyEnv ''j1'' (staleWorld Error))
              = Inr (staleJob Error)
          \<and> snd (regenerateReset steadyEnv ''j1'' (staleWorld Error)) = w1
          \<and> map (\<lambda>j. (status j, image_path j, metadata_path j, error_message j)) (jobs w1)
               = [(Pending, None, None, None)]
          \<and> files w1 ''uploads/j1.png'' = None)
   \<and> (\<exists>w2. regenerateJob steadyEnv ''j1'' (staleWorld Error) = (Inr True, w2)
          \<and> map (\<lambda>j. (status j, image_path j, metadata_path j, error_message j)) (jobs w2)
               = [(Generated, Some ''uploads/j1.png'', None, None)]
          \<and> files w2 ''uploads/j1.png'' = Some (Bytes ''png''))
   \<and> fst (regenerateRoute steadyEnv ''j1'' (staleWorld Error)) = 200"
proof -
  let ?env = "steadyEnv"
  let ?w = "staleWorld Error"
  let ?job = "staleJob Error"
  have db: "\<forall>n. dbFails ?env n = None" by (simp add: sampleEnv_def steadyEnv_def)
  have found: "find (\<lambda>j. job_id j = ''j1'') (jobs ?w) = Some ?job"
    by (simp add: staleWorld_def staleJob_def sample_defs)
  have st: "status ?job = Generated \<or> status ?job = Error"
    by (simp add: staleWorld_def staleJob_def sample_defs)
  have img: "image_path ?job = Some ''uploads/j1.png'' \<and> ''uploads/j1.png'' \<noteq> []"
    by (simp add: staleWorld_def staleJob_def sample_defs)
  have api: "stability ?env (apiCalls ?w) (ai_prompt ?job) = Inr ''png''"
    by (simp add: sampleEnv_def steadyEnv_def)
  have up: "path_join (uploadsDir ?env) (''j1'' @ ''.png'') = ''uploads/j1.png''"
    by (simp add: path_join_def sampleEnv_def steadyEnv_def)
  have rows: "jobs ?w = [?job]" by (simp add: staleWorld_def staleJob_def sample_defs)
  have id: "job_id ?job = ''j1''" by (simp add: staleWorld_def staleJob_def sample_defs)
  from regenerate_resets_then_processes[OF db found st] obtain w1 w2 where
    r: "regenerateReset ?env ''j1'' ?w = (Inr ?job, w1)"
    and j1: "jobs w1 = map (\<lambda>j. if job_id j = ''j1'' then resetRow j else j) (jobs ?w)"
    and f1: "files w1 ''uploads/j1.png'' = None"
    and g: "regenerateJob ?env ''j1'' ?w = (Inr True, w2)"
    and j2: "jobs w2 = map (\<lambda>j. if job_id j = ''j1'' then regeneratedRow ?env j else j) (jobs ?w)"
    and f2: "files w2 (path_join (uploadsDir ?env) (''j1'' @ ''.png'')) = Some (Bytes ''png'')"
    and rt: "fst (regenerateRoute ?env ''j1'' ?w) = 200"
    using img api by blast
  have a: "map (\<lambda>j. (status j, image_path j, metadata_path j, error_message j)) (jobs w1)
               = [(Pending, None, None, None)]"
    unfolding j1 rows by (simp add: id resetRow_def)
  have b: "map (\<lambda>j. (status j, image_path j, metadata_path j, error_message j)) (jobs w2)
               = [(Generated, Some ''uploads/j1.png'', None, None)]"
    unfolding j2 rows by (simp add: id regeneratedRow_def up[simplified])
  from found st r a f1 g b f2 rt show ?thesis
    unfolding up by (simp add: staleWorld_def staleJob_def sample_defs)
qed

lemma digit_char_not_n: "d < 10 \<Longrightarrow> digit_char d \<noteq> CHR ''n''"
proof
  assume d: "d < 10" and eq: "digit_char d = CHR ''n''"
  then have "(of_char (char_of (48 + d)) :: nat) = of_char (CHR ''n'')"
    by (simp add: digit_char_def)
  with d show False by simp
qed

lemma last_string_of_nat: "last (string_of_nat n) = digit_char (n mod 10)"
  by (subst string_of_nat.simps) simp

lemma string_of_nat_not_collection: "string_of_nat n \<noteq> ''collection''"
proof
  assume "string_of_nat n = ''collection''"
  then have "last (string_of_nat n) = CHR ''n''" by simp
  then show False using digit_char_not_n[of "n mod 10"] by (simp add: last_string_of_nat)
qed

lemma kinds_of_entries:
  "isImageEntry \<lparr>entry_name = string_of_nat n @ ''.png'', entry_source = s\<rparr>"
  "\<not> isMetadataEntry \<lparr>entry_name = string_of_nat n @ ''.png'', entry_source = s\<rparr>"
  "\<not> isManifestEntry \<lparr>entry_name = string_of_nat n @ ''.png'', entry_source = s\<rparr>"
  "\<not> isImageEntry \<lparr>entry_name = string_of_nat n @ ''.json'', entry_source = s\<rparr>"
  "isMetadataEntry \<lparr>entry_name = string_of_nat n @ ''.json'', entry_source = s\<rparr>"
  "\<not> isManifestEntry \<lparr>entry_name = string_of_nat n @ ''.json'', entry_source = s\<rparr>"
  "\<not> isImageEntry \<lparr>entry_name = ''collection.json'', entry_source = s\<rparr>"
  "\<not> isMetadataEntry \<lparr>entry_name = ''collection.json'', entry_source = s\<rparr>"
  "isManifestEntry \<lparr>entry_name = ''collection.json'', entry_source = s\<rparr>"
  "\<not> isImageEntry \<lparr>entry_name = ''README.md'', entry_source = s\<rparr>"
  "\<not> isMetadataEntry \<lparr>entry_name = ''README.md'', entry_source = s\<rparr>"
  "\<not> isManifestEntry \<lparr>entry_name = ''README.md'', entry_source = s\<rparr>"
  using string_of_nat_not_collection[of n]
  by (auto simp: isImageEntry_def isMetadataEntry_def isManifestEntry_def suffix_to_prefix
      dest: arg_cong[where f = "\<lambda>s. take 10 s"]
            arg_cong[where f = "\<lambda>s. last s"])

lemma find_collection_ok:
  "dbFails env (dbCalls w) = None \<Longrightarrow>
   Collection_findById env i w =
     (Inr (find (\<lambda>c. col_id c = i) (collections w)), w\<lparr>dbCalls := Suc (dbCalls w)\<rparr>)"
  by (simp add: Collection_findById_def dbStmt_ok)

lemma truthy_path_dbCalls [simp]: "truthy_path p (w\<lparr>dbCalls := n\<rparr>) = truthy_path p w"
  by (simp add: truthy_path_def split: option.split)

lemma jobEntries_dbCalls [simp]: "jobEntries (w\<lparr>dbCalls := n\<rparr>) = jobEntries w"
  by (rule ext) (simp add: jobEntries_def)

lemma count_job_entries:
  assumes "\<forall>j\<in>set js. truthy_path (image_path j) w \<noteq> None \<and> truthy_path (metadata_path j) w \<noteq> None"
  shows "length (filter isImageEntry (concat (map (jobEntries w) js))) = length js
       \<and> length (filter isMetadataEntry (concat (map (jobEntries w) js))) = length js
       \<and> length (filter isManifestEntry (concat (map (jobEntries w) js))) = 0
       \<and> length (concat (map (jobEntries w) js)) = 2 * length js"
  using assms
proof (induction js)
  case Nil
  show ?case by simp
next
  case (Cons j js)
  from Cons.prems obtain p m where "truthy_path (image_path j) w = Some p"
    "truthy_path (metadata_path j) w = Some m" by auto
  then have "jobEntries w j =
      [\<lparr>entry_name = string_of_nat (edition_in_drop j) @ ''.png'', entry_source = FromFile p\<rparr>,
       \<lparr>entry_name = string_of_nat (edition_in_drop j) @ ''.json'', entry_source = FromFile m\<rparr>]"
    by (simp add: jobEntries_def)
  moreover from Cons have "length (filter isImageEntry (concat (map (jobEntries w) js))) = length js
       \<and> length (filter isMetadataEntry (concat (map (jobEntries w) js))) = length js
       \<and> length (filter isManifestEntry (concat (map (jobEntries w) js))) = 0
       \<and> length (concat (map (jobEntries w) js)) = 2 * length js" by simp
  ultimately show ?case by (simp add: kinds_of_entries)
qed

text \<open>
  C8. With the database answering and the collection found: without approved jobs
  \<open>createCollectionPackage\<close> throws \<open>No approved jobs found for collection\<close> and writes no
  file; with \<open>N\<close> approved jobs whose image and metadata files all exist it writes an
  archive that holds exactly \<open>N\<close> image entries, \<open>N\<close> metadata entries and one
  \<open>collection.json\<close> (and, besides these, the \<open>README.md\<close>: \<open>2N + 2\<close> entries in all).
\<close>

theorem package_entries:
  assumes db: "\<forall>n. dbFails env n = None"
    and col: "find (\<lambda>c. col_id c = collectionId) (collections w) = Some c"
  shows "(selectJobs collectionId (Some Approved) 0 (jobs w) = [] \<longrightarrow>
            createCollectionPackage env collectionId w =
              (Inl (Thrown ''No approved jobs found for collection''),
               w\<lparr>dbCalls := dbCalls w + 2\<rparr>))
       \<and> (selectJobs collectionId (Some Approved) 0 (jobs w) \<noteq> []
            \<and> (\<forall>j\<in>set (selectJobs collectionId (Some Approved) 0 (jobs w)).
                  truthy_path (image_path j) w \<noteq> None \<and> truthy_path (metadata_path j) w \<noteq> None)
          \<longrightarrow> (\<exists>zipPath w' entries.
                 createCollectionPackage env collectionId w = (Inr zipPath, w')
               \<and> files w' zipPath = Some (ZipArchive entries)
               \<and> length (filter isImageEntry entries)
                   = length (selectJobs collectionId (Some Approved) 0 (jobs w))
               \<and> length (filter isMetadataEntry entries)
                   = length (selectJobs collectionId (Some Approved) 0 (jobs w))
               \<and> length (filter isManifestEntry entries) = 1
               \<and> length entries = 2 * length (selectJobs collectionId (Some Approved) 0 (jobs w)) + 2))"
proof (intro conjI impI)
  assume "selectJobs collectionId (Some Approved) 0 (jobs w) = []"
  then show "createCollectionPackage env collectionId w =
              (Inl (Thrown ''No approved jobs found for collection''),
               w\<lparr>dbCalls := dbCalls w + 2\<rparr>)"
    using db col
    by (simp add: createCollectionPackage_def await_def throw_def find_collection_ok find_jobs_ok)
next
  let ?A = "selectJobs collectionId (Some Approved) 0 (jobs w)"
  assume a: "?A \<noteq> [] \<and> (\<forall>j\<in>set ?A.
           truthy_path (image_path j) w \<noteq> None \<and> truthy_path (metadata_path j) w \<noteq> None)"
  let ?zip = "path_join (outputDir env) (sanitize (col_name c) @ ''_'' @ collection_number c @ ''.zip'')"
  let ?entries = "packageEntries w c ?A"
  let ?w' = "w\<lparr>dbCalls := dbCalls w + 2, files := (files w)(?zip \<mapsto> ZipArchive ?entries)\<rparr>"
  have run: "createCollectionPackage env collectionId w = (Inr ?zip, ?w')"
    using db col a
    by (simp add: createCollectionPackage_def await_def find_collection_ok find_jobs_ok Let_def
        packageEntries_def)
  from a count_job_entries[of ?A w] have
    "length (filter isImageEntry ?entries) = length ?A"
    "length (filter isMetadataEntry ?entries) = length ?A"
    "length (filter isManifestEntry ?entries) = 1"
    "length ?entries = 2 * length ?A + 2"
    by (simp_all add: packageEntries_def kinds_of_entries)
  with run show "\<exists>zipPath w' entries.
                 createCollectionPackage env collectionId w = (Inr zipPath, w')
               \<and> files w' zipPath = Some (ZipArchive entries)
               \<and> length (filter isImageEntry entries) = length ?A
               \<and> length (filter isMetadataEntry entries) = length ?A
               \<and> length (filter isManifestEntry entries) = 1
               \<and> length entries = 2 * length ?A + 2"
    by (intro exI[of _ ?zip] exI[of _ ?w'] exI[of _ ?entries]) simp
qed

lemma approvedWorld_select:
  "selectJobs ''col'' (Some Approved) 0 (jobs approvedWorld)
     = [approvedJob ''j1'' 1, approvedJob ''j2'' 2]"
  by (simp add: selectJobs_def approvedWorld_def approvedJob_def sample_defs)

lemma sampleWorld_select:
  "selectJobs ''col'' (Some Approved) 0 (jobs (sampleWorld [sampleJob ''j3'' 3 Pending])) = []"
  by (simp add: selectJobs_def sample_defs)

theorem package_entries_witness:
  "fst (createCollectionPackage steadyEnv ''col''
          (sampleWorld [sampleJob ''j3'' 3 Pending]))
     = Inl (Thrown ''No approved jobs found for collection'')
   \<and> files (snd (createCollectionPackage steadyEnv ''col''
          (sampleWorld [sampleJob ''j3'' 3 Pending]))) = Map.empty
   \<and> (\<exists>zipPath w' entries.
         createCollectionPackage steadyEnv ''col'' approvedWorld = (Inr zipPath, w')
       \<and> files w' zipPath = Some (ZipArchive entries)
       \<and> length (filter isImageEntry entries) = 2
       \<and> length (filter isMetadataEntry entries) = 2
       \<and> length (filter isManifestEntry entries) = 1
       \<and> length entries = 6)"
proof -
  let ?env = "steadyEnv"
  let ?c = "\<lparr> col_id = ''col'', col_name = ''Fox Club'', col_symbol = ''FOX'',
               col_description = ''Foxes'', collection_number = ''7'',
               total_supply = 3, drop_supply = 3, drop_number = 1 \<rparr>"
  have db: "\<forall>n. dbFails ?env n = None" by (simp add: sampleEnv_def steadyEnv_def)
  have c0: "find (\<lambda>c. col_id c = ''col'') (collections (sampleWorld [sampleJob ''j3'' 3 Pending])) = Some ?c"
    by (simp add: sample_defs)
  have c1: "find (\<lambda>c. col_id c = ''col'') (collections approvedWorld) = Some ?c"
    by (simp add: approvedWorld_def sample_defs)
  have present: "\<forall>j\<in>set (selectJobs ''col'' (Some Approved) 0 (jobs approvedWorld)).
      truthy_path (image_path j) approvedWorld \<noteq> None
      \<and> truthy_path (metadata_path j) approvedWorld \<noteq> None"
    unfolding approvedWorld_select
    by (simp add: truthy_path_def approvedWorld_def approvedJob_def sample_defs)
  from package_entries[OF db c0] sampleWorld_select
  have e: "createCollectionPackage ?env ''col'' (sampleWorld [sampleJob ''j3'' 3 Pending]) =
      (Inl (Thrown ''No approved jobs found for collection''),
       (sampleWorld [sampleJob ''j3'' 3 Pending])
         \<lparr>dbCalls := dbCalls (sampleWorld [sampleJob ''j3'' 3 Pending]) + 2\<rparr>)"
    by blast
  have e1: "fst (createCollectionPackage ?env ''col'' (sampleWorld [sampleJob ''j3'' 3 Pending]))
     = Inl (Thrown ''No approved jobs found for collection'')"
    and e2: "files (snd (createCollectionPackage ?env ''col''
          (sampleWorld [sampleJob ''j3'' 3 Pending]))) = Map.empty"
    unfolding e by (simp_all add: sample_defs)
  have ne: "selectJobs ''col'' (Some Approved) 0 (jobs approvedWorld) \<noteq> []"
    and len: "length (selectJobs ''col'' (Some Approved) 0 (jobs approvedWorld)) = 2"
    unfolding approvedWorld_select by simp_all
  from package_entries[OF db c1] ne present obtain zipPath w' entries where
    "createCollectionPackage ?env ''col'' approvedWorld = (Inr zipPath, w')"
    "files w' zipPath = Some (ZipArchive entries)"
    "length (filter isImageEntry entries) = length (selectJobs ''col'' (Some Approved) 0 (jobs approvedWorld))"
    "length (filter isMetadataEntry entries) = length (selectJobs ''col'' (Some Approved) 0 (jobs approvedWorld))"
    "length (filter isManifestEntry entries) = 1"
    "length entries = 2 * length (selectJobs ''col'' (Some Approved) 0 (jobs approvedWorld)) + 2"
    by blast
  then have "\<exists>zipPath w' entries.
         createCollectionPackage ?env ''col'' approvedWorld = (Inr zipPath, w')
       \<and> files w' zipPath = Some (ZipArchive entries)
       \<and> length (filter isImageEntry entries) = 2
       \<and> length (filter isMetadataEntry entries) = 2
       \<and> length (filter isManifestEntry entries) = 1
       \<and> length entries = 6"
    unfolding len by (intro exI[of _ zipPath] exI[of _ w'] exI[of _ entries]) simp
  with e1 e2 show ?thesis by (intro conjI)
qed


lemma loop_body_settles:
  assumes db: "\<forall>n. dbFails env n = None"
  shows "tryCatch
          (await (processJob env job) (\<lambda>_. return (processedJobs @ [job])))
          (\<lambda>error.
             await (Job_updateStatus env (job_id job) Error
                      (noData\<lparr>set_error_message := Some (Some (exn_message error))\<rparr>)) (\<lambda>_.
             await (Job_incrementRetryCount env (job_id job)) (\<lambda>_.
             return processedJobs))) w
       = (Inr (processedJobs @ succeeded env (apiCalls w) [job]), settle env w job)"
proof (cases "stability env (apiCalls w) (ai_prompt job)")
  case (Inl m)
  show ?thesis
    using db Inl
    apply (simp add: tryCatch_def await_def return_def processJob_failure[OF db Inl]
        updateStatus_ok incrementRetryCount_ok settle_def)
    apply (rule world.equality)
    apply (simp_all add: applyUpdate_def noData_def failedRow_def)
    done
next
  case (Inr imageData)
  have rows: "map (\<lambda>j. if job_id j = job_id job
                           then j\<lparr>status := Generated,
                                  image_path := Some (path_join (uploadsDir env) (job_id job @ ''.png''))\<rparr>
                           else j) (jobs w)
        = map (\<lambda>j. if job_id j = job_id job then generatedRow env j else j) (jobs w)"
    by (auto simp: generatedRow_def)
  show ?thesis
    using db Inr
    by (simp add: tryCatch_def await_def return_def processJob_success[OF db Inr]
        settle_def rows)
qed

lemma batchLoop_settles:
  assumes db: "\<forall>n. dbFails env n = None"
  shows "batchLoop env js processedJobs w =
           (Inr (processedJobs @ succeeded env (apiCalls w) js), foldl (settle env) w js)"
proof (induction js arbitrary: processedJobs w)
  case Nil
  show ?case by (simp add: return_def)
next
  case (Cons job rest)
  have a: "apiCalls (settle env w job) = Suc (apiCalls w)"
    by (simp add: settle_def split: sum.split)
  show ?case
    by (simp only: batchLoop.simps await_def[of _ "batchLoop env rest"] loop_body_settles[OF db]
        prod.case sum.case Cons.IH a foldl_Cons succeeded.simps append_assoc append_Nil)
qed

lemma settle_fields:
  "apiCalls (settle env w job) = Suc (apiCalls w)"
  "isProcessing (settle env w job) = isProcessing w"
  "map job_id (jobs (settle env w job)) = map job_id (jobs w)"
  by (auto simp: settle_def failedRow_def generatedRow_def split: sum.split)

lemma foldl_settle_fields:
  "apiCalls (foldl (settle env) w js) = apiCalls w + length js
   \<and> isProcessing (foldl (settle env) w js) = isProcessing w
   \<and> map job_id (jobs (foldl (settle env) w js)) = map job_id (jobs w)"
  by (induction js arbitrary: w) (simp_all add: settle_fields)

lemma settle_other_row:
  "r \<in> set (jobs w) \<Longrightarrow> job_id r \<noteq> job_id job \<Longrightarrow> r \<in> set (jobs (settle env w job))"
  by (auto simp: settle_def split: sum.split)

lemma foldl_settle_other_row:
  "r \<in> set (jobs w) \<Longrightarrow> job_id r \<notin> job_id ` set js \<Longrightarrow>
   r \<in> set (jobs (foldl (settle env) w js))"
  by (induction js arbitrary: w) (auto simp: settle_other_row)

lemma settle_own_row:
  "job \<in> set (jobs w) \<Longrightarrow> outcomeRow env (apiCalls w) job \<in> set (jobs (settle env w job))"
  by (auto simp: settle_def outcomeRow_def split: sum.split)

lemma outcomeRow_id [simp]: "job_id (outcomeRow env n j) = job_id j"
  by (simp add: outcomeRow_def failedRow_def generatedRow_def split: sum.split)

lemma foldl_settle_row:
  assumes "distinct (map job_id js)" and "set js \<subseteq> set (jobs w)" and "k < length js"
  shows "outcomeRow env (apiCalls w + k) (js ! k) \<in> set (jobs (foldl (settle env) w js))"
  using assms
proof (induction js arbitrary: w k)
  case Nil
  then show ?case by simp
next
  case (Cons job rest)
  from Cons.prems(1) have fresh: "job_id job \<notin> job_id ` set rest" and d: "distinct (map job_id rest)"
    by simp_all
  show ?case
  proof (cases k)
    case 0
    from Cons.prems(2) have "job \<in> set (jobs w)" by simp
    then have "outcomeRow env (apiCalls w) job \<in> set (jobs (settle env w job))"
      by (rule settle_own_row)
    then have "outcomeRow env (apiCalls w) job \<in> set (jobs (foldl (settle env) (settle env w job) rest))"
      using fresh by (intro foldl_settle_other_row) simp_all
    with 0 show ?thesis by simp
  next
    case (Suc k')
    have sub: "set rest \<subseteq> set (jobs (settle env w job))"
    proof
      fix r assume r: "r \<in> set rest"
      with Cons.prems(2) have "r \<in> set (jobs w)" by auto
      moreover from r fresh have "job_id r \<noteq> job_id job" by (metis imageI)
      ultimately show "r \<in> set (jobs (settle env w job))" by (rule settle_other_row)
    qed
    from Suc Cons.prems(3) have "k' < length rest" by simp
    from Cons.IH[OF d sub this] Suc show ?thesis by (simp add: settle_fields)
  qed
qed

lemma selectJobs_subset: "set (selectJobs c st limit table) \<subseteq> set table"
  by (auto simp: selectJobs_def Let_def dest: in_set_takeD)

lemma selectJobs_distinct:
  assumes "distinct (map job_id table)"
  shows "distinct (map job_id (selectJobs c st limit table))"
proof -
  from assms have inj: "inj_on job_id (set table)" and d: "distinct table"
    by (simp_all add: distinct_map)
  have "distinct (selectJobs c st limit table)"
    using d by (simp add: selectJobs_def Let_def)
  moreover have "inj_on job_id (set (selectJobs c st limit table))"
    using inj selectJobs_subset by (rule inj_on_subset)
  ultimately show ?thesis by (simp add: distinct_map)
qed

text \<open>
  C4. For either batch entry point, with the lock free, the database answering and job
  ids unique: the call returns normally whatever the image API does; it issues one image
  request per fetched pending job, in order, also after earlier requests have failed; a
  job whose request fails with message \<open>m\<close> ends with status error, the message
  \<open>Failed to generate image: m\<close> stored and its retry count raised by exactly one; a job
  whose request succeeds ends generated with its image path; the returned list holds the
  jobs that succeeded.
\<close>

theorem batch_survives_failures:
  assumes db: "\<forall>n. dbFails env n = None"
    and free: "\<not> isProcessing w"
    and pk: "distinct (map job_id (jobs w))"
    and batch: "batch = selectJobs collectionId (Some Pending) (batchSize env kind) (jobs w)"
    and nonempty: "batch \<noteq> []"
  shows "\<exists>w'. invoke env kind collectionId w = (Inr (succeeded env (apiCalls w) batch), w')
           \<and> apiCalls w' = apiCalls w + length batch
           \<and> map job_id (jobs w') = map job_id (jobs w)
           \<and> \<not> isProcessing w'
           \<and> (\<forall>k<length batch.
                 case stability env (apiCalls w + k) (ai_prompt (batch ! k)) of
                   Inl m \<Rightarrow>
                     (batch ! k)\<lparr>status := Error,
                       error_message := Some (''Failed to generate image: '' @ m),
                       retry_count := retry_count (batch ! k) + 1\<rparr> \<in> set (jobs w')
                 | Inr imageData \<Rightarrow>
                     (batch ! k)\<lparr>status := Generated,
                       image_path := Some (path_join (uploadsDir env) (job_id (batch ! k) @ ''.png''))\<rparr>
                       \<in> set (jobs w'))"
proof -
  let ?w1 = "w\<lparr>isProcessing := True, dbCalls := Suc (dbCalls w)\<rparr>"
  let ?w2 = "foldl (settle env) ?w1 batch"
  let ?w' = "?w2\<lparr>isProcessing := False\<rparr>"
  have fetch: "Job_findByCollectionId env collectionId (Some Pending) (batchSize env kind)
                 (w\<lparr>isProcessing := True\<rparr>) = (Inr batch, ?w1)"
    using db by (simp add: find_jobs_ok batch)
  have loop: "batchLoop env batch [] ?w1 = (Inr (succeeded env (apiCalls w) batch), ?w2)"
    using batchLoop_settles[OF db, of batch "[]" ?w1] by simp
  have rest: "resume env kind collectionId (w\<lparr>isProcessing := True\<rparr>)
                = (Inr (succeeded env (apiCalls w) batch), ?w')"
    using nonempty fetch loop
    by (cases kind)
       (simp_all add: resume_def initialRest_def continueRest_def tryCatch_def await_def
          finish_def batchSize_def)
  have run: "invoke env kind collectionId w = (Inr (succeeded env (apiCalls w) batch), ?w')"
    using free by (simp add: invoke_split start_accepted rest)
  from foldl_settle_fields[of env ?w1 batch]
  have f: "apiCalls ?w' = apiCalls w + length batch"
    "map job_id (jobs ?w') = map job_id (jobs w)" "\<not> isProcessing ?w'"
    by simp_all
  have d: "distinct (map job_id batch)"
    unfolding batch using pk by (rule selectJobs_distinct)
  have sub: "set batch \<subseteq> set (jobs ?w1)"
    unfolding batch using selectJobs_subset[of collectionId "Some Pending" "batchSize env kind" "jobs w"]
    by simp
  have rows: "case stability env (apiCalls w + k) (ai_prompt (batch ! k)) of
                   Inl m \<Rightarrow>
                     (batch ! k)\<lparr>status := Error,
                       error_message := Some (''Failed to generate image: '' @ m),
                       retry_count := retry_count (batch ! k) + 1\<rparr> \<in> set (jobs ?w')
                 | Inr imageData \<Rightarrow>
                     (batch ! k)\<lparr>status := Generated,
                       image_path := Some (path_join (uploadsDir env) (job_id (batch ! k) @ ''.png''))\<rparr>
                       \<in> set (jobs ?w')"
    if k: "k < length batch" for k
    using foldl_settle_row[OF d sub k, of env]
    by (cases "stability env (apiCalls w + k) (ai_prompt (batch ! k))")
       (simp_all add: outcomeRow_def failedRow_def generatedRow_def)
  from run f rows show ?thesis by (intro exI[of _ ?w']) simp
qed

theorem batch_survives_failures_witness:
  "distinct (map job_id (jobs pendingWorld))
   \<and> selectJobs ''col'' (Some Pending) (batchSize flakyEnv Initial) (jobs pendingWorld)
       = [sampleJob ''j1'' 1 Pending, sampleJob ''j2'' 2 Pending, sampleJob ''j3'' 3 Pending]
   \<and> (\<exists>w'. invoke flakyEnv Initial ''col'' pendingWorld
               = (Inr [sampleJob ''j2'' 2 Pending, sampleJob ''j3'' 3 Pending], w')
          \<and> apiCalls w' = 3
          \<and> \<not> isProcessing w'
          \<and> (sampleJob ''j1'' 1 Pending)\<lparr>status := Error,
                error_message := Some ''Failed to generate image: rate limit'',
                retry_count := 1\<rparr> \<in> set (jobs w')
          \<and> (sampleJob ''j2'' 2 Pending)\<lparr>status := Generated,
                image_path := Some ''uploads/j2.png''\<rparr> \<in> set (jobs w')
          \<and> (sampleJob ''j3'' 3 Pending)\<lparr>status := Generated,
                image_path := Some ''uploads/j3.png''\<rparr> \<in> set (jobs w'))"
proof -
  let ?batch = "[sampleJob ''j1'' 1 Pending, sampleJob ''j2'' 2 Pending, sampleJob ''j3'' 3 Pending]"
  have db: "\<forall>n. dbFails flakyEnv n = None" by (simp add: flakyEnv_def sampleEnv_def)
  have free: "\<not> isProcessing pendingWorld" by (simp add: pendingWorld_def sampleWorld_def)
  have pk: "distinct (map job_id (jobs pendingWorld))"
    by (simp add: pendingWorld_def sample_defs)
  have batch: "?batch = selectJobs ''col'' (Some Pending) (batchSize flakyEnv Initial) (jobs pendingWorld)"
    by (simp add: selectJobs_def batchSize_def flakyEnv_def pendingWorld_def sample_defs)
  have ne: "?batch \<noteq> []" by simp
  have a0: "apiCalls pendingWorld = 0" by (simp add: pendingWorld_def sampleWorld_def)
  have s: "succeeded flakyEnv 0 ?batch = [sampleJob ''j2'' 2 Pending, sampleJob ''j3'' 3 Pending]"
    by (simp add: flakyEnv_def sampleEnv_def)
  have api: "stability flakyEnv n p = (if n = 0 then Inl ''rate limit'' else Inr ''png'')" for n p
    by (simp add: flakyEnv_def sampleEnv_def)
  have paths: "path_join (uploadsDir flakyEnv) (job_id (sampleJob ''j2'' 2 Pending) @ ''.png'') = ''uploads/j2.png''"
    "path_join (uploadsDir flakyEnv) (job_id (sampleJob ''j3'' 3 Pending) @ ''.png'') = ''uploads/j3.png''"
    by (simp_all add: path_join_def flakyEnv_def sample_defs)
  have r0: "retry_count (sampleJob ''j1'' (Suc 0) Pending) = 0" by (simp add: sampleJob_def)
  from batch_survives_failures[OF db free pk batch ne] obtain w' where
    run: "invoke flakyEnv Initial ''col'' pendingWorld = (Inr (succeeded flakyEnv (apiCalls pendingWorld) ?batch), w')"
    and calls: "apiCalls w' = apiCalls pendingWorld + length ?batch"
    and fl: "\<not> isProcessing w'"
    and rows: "\<forall>k<length ?batch.
                 case stability flakyEnv (apiCalls pendingWorld + k) (ai_prompt (?batch ! k)) of
                   Inl m \<Rightarrow>
                     (?batch ! k)\<lparr>status := Error,
                       error_message := Some (''Failed to generate image: '' @ m),
                       retry_count := retry_count (?batch ! k) + 1\<rparr> \<in> set (jobs w')
                 | Inr imageData \<Rightarrow>
                     (?batch ! k)\<lparr>status := Generated,
                       image_path := Some (path_join (uploadsDir flakyEnv) (job_id (?batch ! k) @ ''.png''))\<rparr>
                       \<in> set (jobs w')"
    by blast
  from rows[rule_format, of 0] have k0: "(sampleJob ''j1'' 1 Pending)\<lparr>status := Error,
                error_message := Some ''Failed to generate image: rate limit'',
                retry_count := 1\<rparr> \<in> set (jobs w')"
    unfolding a0 by (simp add: api r0)
  from rows[rule_format, of 1] have k1: "(sampleJob ''j2'' 2 Pending)\<lparr>status := Generated,
                image_path := Some ''uploads/j2.png''\<rparr> \<in> set (jobs w')"
    unfolding a0 by (simp add: api paths)
  from rows[rule_format, of 2] have k2: "(sampleJob ''j3'' 3 Pending)\<lparr>status := Generated,
                image_path := Some ''uploads/j3.png''\<rparr> \<in> set (jobs w')"
    unfolding a0 by (simp add: api paths)
  from run have run': "invoke flakyEnv Initial ''col'' pendingWorld
               = (Inr [sampleJob ''j2'' 2 Pending, sampleJob ''j3'' 3 Pending], w')"
    unfolding a0 s .
  from calls have c: "apiCalls w' = 3" unfolding a0 by simp
  from pk batch[symmetric] run' c fl k0 k1 k2 show ?thesis by blast
qed

end
